theory Spec2Isabelle
  imports Complex_Main
begin

section \<open>Go strings as byte lists\<close>

text \<open>
  A Go \<open>string\<close> is a sequence of bytes; \<open>len\<close> counts bytes and slicing cuts bytes.
  It is modelled as \<^typ>\<open>string\<close> (a list of 8-bit characters).  \<open>float64\<close> values
  (progress fractions, trim bounds) are modelled as \<^typ>\<open>real\<close>: the properties below
  only compare and clamp them, rounding is not modelled.  Go \<open>int\<close> and \<open>int64\<close> values
  are only compared or accumulated far below their range and are modelled as \<^typ>\<open>int\<close>.
\<close>

text \<open>\<open>strings.HasPrefix\<close> and \<open>strings.TrimPrefix\<close>.\<close>

definition HasPrefix :: "string \<Rightarrow> string \<Rightarrow> bool" where
  "HasPrefix s pre = (take (length pre) s = pre)"

definition TrimPrefix :: "string \<Rightarrow> string \<Rightarrow> string" where
  "TrimPrefix s pre = (if HasPrefix s pre then drop (length pre) s else s)"

definition HasSuffix :: "string \<Rightarrow> string \<Rightarrow> bool" where
  "HasSuffix s suf = (length suf \<le> length s \<and> drop (length s - length suf) s = suf)"

text \<open>\<open>strings.Contains(s, substr)\<close>: \<open>substr\<close> occurs in \<open>s\<close> as a contiguous run of bytes.\<close>

fun Contains :: "string \<Rightarrow> string \<Rightarrow> bool" where
  "Contains [] substr = (substr = [])"
| "Contains (c # s) substr = (HasPrefix (c # s) substr \<or> Contains s substr)"

text \<open>
  \<open>strings.ReplaceAll(s, old, new)\<close> for a non-empty \<open>old\<close>: non-overlapping occurrences,
  left to right.  (Every call in the source passes a one-byte \<open>old\<close>; for an empty \<open>old\<close>
  Go inserts \<open>new\<close> around every code point, which is not modelled.)
\<close>

fun ReplaceAll :: "string \<Rightarrow> string \<Rightarrow> string \<Rightarrow> string" where
  "ReplaceAll [] old new = []"
| "ReplaceAll (c # s) old new =
     (if old \<noteq> [] \<and> HasPrefix (c # s) old
      then new @ ReplaceAll (drop (length old - 1) s) old new
      else c # ReplaceAll s old new)"

text \<open>
  \<open>strings.TrimSpace\<close> removes leading and trailing white space as \<open>unicode.IsSpace\<close>
  defines it.  On bytes these are the UTF-8 encodings of U+0009..U+000D, U+0020, U+0085,
  U+00A0, U+1680, U+2000..U+200A, U+2028, U+2029, U+202F, U+205F and U+3000.
\<close>

definition utf8_spaces :: "string list" where
  "utf8_spaces =
     [[CHR 0x09], [CHR 0x0A], [CHR 0x0B], [CHR 0x0C], [CHR 0x0D], [CHR 0x20],
      [CHR 0xC2, CHR 0x85], [CHR 0xC2, CHR 0xA0], [CHR 0xE1, CHR 0x9A, CHR 0x80],
      [CHR 0xE2, CHR 0x80, CHR 0x80], [CHR 0xE2, CHR 0x80, CHR 0x81],
      [CHR 0xE2, CHR 0x80, CHR 0x82], [CHR 0xE2, CHR 0x80, CHR 0x83],
      [CHR 0xE2, CHR 0x80, CHR 0x84], [CHR 0xE2, CHR 0x80, CHR 0x85],
      [CHR 0xE2, CHR 0x80, CHR 0x86], [CHR 0xE2, CHR 0x80, CHR 0x87],
      [CHR 0xE2, CHR 0x80, CHR 0x88], [CHR 0xE2, CHR 0x80, CHR 0x89],
      [CHR 0xE2, CHR 0x80, CHR 0x8A], [CHR 0xE2, CHR 0x80, CHR 0xA8],
      [CHR 0xE2, CHR 0x80, CHR 0xA9], [CHR 0xE2, CHR 0x80, CHR 0xAF],
      [CHR 0xE2, CHR 0x81, CHR 0x9F], [CHR 0xE3, CHR 0x80, CHR 0x80]]"

fun TrimLeftSpace :: "string \<Rightarrow> string" where
  "TrimLeftSpace [] = []"
| "TrimLeftSpace (c # s) =
     (case find (HasPrefix (c # s)) utf8_spaces of
        None \<Rightarrow> c # s
      | Some sp \<Rightarrow> TrimLeftSpace (drop (length sp - 1) s))"

function TrimRightSpace :: "string \<Rightarrow> string" where
  "TrimRightSpace s =
     (case find (HasSuffix s) utf8_spaces of
        None \<Rightarrow> s
      | Some sp \<Rightarrow>
          if sp = [] \<or> s = [] then s
          else TrimRightSpace (take (length s - length sp) s))"
  by pat_completeness auto
termination
  by (relation "measure length") auto

definition TrimSpace :: "string \<Rightarrow> string" where
  "TrimSpace s = TrimRightSpace (TrimLeftSpace s)"

text \<open>\<open>strings.Trim(s, cutset)\<close> for a cutset of ASCII bytes: Go trims byte by byte.\<close>

definition Trim :: "string \<Rightarrow> string \<Rightarrow> string" where
  "Trim s cutset =
     rev (dropWhile (\<lambda>c. c \<in> set cutset) (rev (dropWhile (\<lambda>c. c \<in> set cutset) s)))"

section \<open>Package youtube: file names\<close>

text \<open>
  \<open>sanitizeFilename\<close> (internal/youtube/downloader.go): the nine invalid one-byte strings
  are replaced one after the other by an underscore, then spaces and dots are trimmed
  from both ends and the result is cut to 200 bytes.
\<close>

definition invalid :: "string list" where
  "invalid = [''/'', [CHR 0x5C], '':'', ''*'', ''?'', [CHR 0x22], ''<'', ''>'', ''|'']"

definition sanitizeFilename :: "string \<Rightarrow> string" where
  "sanitizeFilename name =
     (let result = foldl (\<lambda>result ch. ReplaceAll result ch ''_'') name invalid;
          result = TrimSpace result;
          result = Trim result ''.''
      in if length result > 200 then take 200 result else result)"

section \<open>Package youtube: stream variants and their ranking\<close>

text \<open>The fields of \<open>youtube.Format\<close> that the downloader reads.\<close>

record Format =
  MimeType :: string
  AudioChannels :: int
  Width :: int
  Height :: int
  Bitrate :: int

text \<open>
  The three ranking loops keep the index of the best entry seen so far and scan the
  indices \<open>1 .. len - 1\<close>; a later entry replaces the best one only when it is strictly
  better.
\<close>

definition withAudio_step :: "Format list \<Rightarrow> nat \<Rightarrow> nat \<Rightarrow> nat" where
  "withAudio_step formats bestIdx i =
     (let f = formats ! i; best = formats ! bestIdx in
      if Height f = 720 \<and> Height best \<noteq> 720 then i
      else if Height best = 720 \<and> Height f \<noteq> 720 then bestIdx
      else if Height f > Height best then i
      else if Height f = Height best \<and> Bitrate f > Bitrate best then i
      else bestIdx)"

definition pickBestWithAudio :: "Format list \<Rightarrow> Format option" where
  "pickBestWithAudio formats =
     (if length formats = 0 then None
      else Some (formats ! foldl (withAudio_step formats) 0 [1 ..< length formats]))"

definition videoOnly_step :: "Format list \<Rightarrow> nat \<Rightarrow> nat \<Rightarrow> nat" where
  "videoOnly_step formats bestIdx i =
     (let f = formats ! i; best = formats ! bestIdx in
      if Height f > Height best then i
      else if Height f = Height best \<and> Bitrate f > Bitrate best then i
      else bestIdx)"

definition pickBestVideoOnly :: "Format list \<Rightarrow> Format option" where
  "pickBestVideoOnly formats =
     (if length formats = 0 then None
      else Some (formats ! foldl (videoOnly_step formats) 0 [1 ..< length formats]))"

definition audioOnly_step :: "Format list \<Rightarrow> nat \<Rightarrow> nat \<Rightarrow> nat" where
  "audioOnly_step formats bestIdx i =
     (let f = formats ! i; best = formats ! bestIdx in
      if Bitrate f > Bitrate best then i else bestIdx)"

definition pickBestAudioOnly :: "Format list \<Rightarrow> Format option" where
  "pickBestAudioOnly formats =
     (if length formats = 0 then None
      else Some (formats ! foldl (audioOnly_step formats) 0 [1 ..< length formats]))"

text \<open>
  \<open>selectFormat\<close>: one pass fills the three candidate lists (most specific last), then
  the first non-empty list decides; the last resort is the first variant whose MIME type
  mentions \<open>video\<close>.
\<close>

definition collect_step ::
  "Format list \<times> Format list \<times> Format list \<Rightarrow> Format \<Rightarrow> Format list \<times> Format list \<times> Format list"
where
  "collect_step acc f =
     (case acc of (mp4H264, mp4Any, withAudio) \<Rightarrow>
        if AudioChannels f > 0 \<and> Contains (MimeType f) ''video'' then
          (if Contains (MimeType f) ''video/mp4'' then
             (if Contains (MimeType f) ''avc1'' \<and> Contains (MimeType f) ''mp4a''
              then (mp4H264 @ [f], mp4Any @ [f], withAudio @ [f])
              else (mp4H264, mp4Any @ [f], withAudio @ [f]))
           else (mp4H264, mp4Any, withAudio @ [f]))
        else (mp4H264, mp4Any, withAudio))"

definition selectFormat :: "Format list \<Rightarrow> Format option" where
  "selectFormat formats =
     (case foldl collect_step ([], [], []) formats of
        (mp4H264, mp4Any, withAudio) \<Rightarrow>
          (case pickBestWithAudio mp4H264 of
             Some best \<Rightarrow> Some best
           | None \<Rightarrow>
              (case pickBestWithAudio mp4Any of
                 Some best \<Rightarrow> Some best
               | None \<Rightarrow>
                  (case pickBestWithAudio withAudio of
                     Some best \<Rightarrow> Some best
                   | None \<Rightarrow> find (\<lambda>f. Contains (MimeType f) ''video'') formats))))"

text \<open>\<open>selectMuxFormats\<close>: the two filter loops, then the two rankings.\<close>

definition isVideoOnlyCandidate :: "Format \<Rightarrow> bool" where
  "isVideoOnlyCandidate f =
     (\<not> AudioChannels f \<noteq> 0 \<and> \<not> \<not> Contains (MimeType f) ''video'' \<and>
      (let isMP4 = Contains (MimeType f) ''video/mp4'';
           isWebM = Contains (MimeType f) ''video/webm''
       in \<not> (\<not> isMP4 \<and> \<not> isWebM)))"

definition isAudioOnlyCandidate :: "Format \<Rightarrow> bool" where
  "isAudioOnlyCandidate f =
     (\<not> AudioChannels f \<le> 0 \<and> \<not> \<not> Contains (MimeType f) ''audio'' \<and>
      (let isMP4 = Contains (MimeType f) ''audio/mp4'';
           isWebM = Contains (MimeType f) ''audio/webm''
       in \<not> (\<not> isMP4 \<and> \<not> isWebM)))"

definition selectMuxFormats :: "Format list \<Rightarrow> Format option \<times> Format option" where
  "selectMuxFormats formats =
     (let videoOnly = foldl (\<lambda>acc f. if isVideoOnlyCandidate f then acc @ [f] else acc) [] formats;
          audioOnly = foldl (\<lambda>acc f. if isAudioOnlyCandidate f then acc @ [f] else acc) [] formats
      in (pickBestVideoOnly videoOnly, pickBestAudioOnly audioOnly))"

text \<open>The tiers of progressive selection, as the conditions of the collecting pass.\<close>

definition tier4 :: "Format \<Rightarrow> bool" where
  "tier4 f = Contains (MimeType f) ''video''"

definition tier3 :: "Format \<Rightarrow> bool" where
  "tier3 f = (AudioChannels f > 0 \<and> Contains (MimeType f) ''video'')"

definition tier2 :: "Format \<Rightarrow> bool" where
  "tier2 f = (tier3 f \<and> Contains (MimeType f) ''video/mp4'')"

definition tier1 :: "Format \<Rightarrow> bool" where
  "tier1 f = (tier2 f \<and> Contains (MimeType f) ''avc1'' \<and> Contains (MimeType f) ''mp4a'')"

text \<open>
  The rankings in words.  \<open>rank720_le g r\<close>: \<open>r\<close> is at least as good as \<open>g\<close> when height
  720 beats every other height, then the greater height wins, then the greater bitrate.
  \<open>rankHeight_le\<close>: the greater height wins, then the greater bitrate.
\<close>

definition rank720_le :: "Format \<Rightarrow> Format \<Rightarrow> bool" where
  "rank720_le g r =
     (if (Height g = 720) \<noteq> (Height r = 720) then Height r = 720
      else Height g < Height r \<or> (Height g = Height r \<and> Bitrate g \<le> Bitrate r))"

definition rankHeight_le :: "Format \<Rightarrow> Format \<Rightarrow> bool" where
  "rankHeight_le g r =
     (Height g < Height r \<or> (Height g = Height r \<and> Bitrate g \<le> Bitrate r))"

section \<open>Effects: files, progress events, subprocesses\<close>

text \<open>
  The state that the operations change: the set of paths that exist on disk, the
  sequence of values delivered so far to the job's progress sink, and the subprocesses
  launched so far.  What the network, the disk and the subprocesses do is not decided by
  the program; it is given to each operation as a script of outcomes.
\<close>

datatype command =
  RunYtdlp string "string list"
| RunMux string "string list"
| RunTranscode string string string
| RunTrim string

record world =
  files :: "string set"
  progress :: "real list"
  spawned :: "command list"

definition Remove :: "string \<Rightarrow> world \<Rightarrow> world" where
  "Remove path w = w\<lparr>files := files w - {path}\<rparr>"

definition deliver :: "real list \<Rightarrow> world \<Rightarrow> world" where
  "deliver evs w = w\<lparr>progress := progress w @ evs\<rparr>"

definition spawn :: "command \<Rightarrow> world \<Rightarrow> world" where
  "spawn c w = w\<lparr>spawned := spawned w @ [c]\<rparr>"

datatype go_error =
  ErrVideo | ErrGetStream | ErrCreate | ErrRead | ErrWrite
| ErrVideoStream go_error | ErrAudioStream go_error | ErrMux
| ErrYtdlpNotFound | ErrYtdlp | ErrOutputNotCreated
| ErrNoFormat | ErrDownload go_error
| ErrNotInstalled | ErrNoVideoLoaded | ErrNotAbsolute | ErrExport go_error
| ErrPathNotSet | ErrInputMissing | ErrTimes | ErrMkdir | ErrPipe | ErrStart | ErrFfmpeg

text \<open>
  A \<open>ProgressCallback\<close> is \<open>nil\<close> (\<open>None\<close>) or a function; calling it delivers values to
  the job's sink.  The callback that \<open>App.LoadVideo\<close> passes forwards every value as one
  event.
\<close>

type_synonym ProgressCallback = "(real \<Rightarrow> real list) option"

definition sink :: ProgressCallback where
  "sink = Some (\<lambda>progress. [progress])"

definition weightedProgress :: "ProgressCallback \<Rightarrow> real \<Rightarrow> real \<Rightarrow> ProgressCallback" where
  "weightedProgress parent base weight =
     Some (\<lambda>p. case parent of
                  None \<Rightarrow> []
                | Some k \<Rightarrow>
                    (let p = (if p < 0 then 0 else p);
                         p = (if p > 1 then 1 else p)
                     in k (base + p * weight)))"

section \<open>Package youtube: fetching one stream\<close>

text \<open>
  One iteration of \<open>io.Copy\<close>: \<open>Read\<close> returns \<open>nbytes\<close> and a status, and the bytes (if
  any) are written to the file.  After the scripted reads the stream reports end of file.
\<close>

datatype read_status = RdOk | RdEOF | RdErr

record read_step =
  nbytes :: nat
  status :: read_status
  write_ok :: bool

record progressReader =
  total_pr :: int
  read_pr :: int
  progressCb_pr :: ProgressCallback
  lastReported :: real
  reportedCount :: int

text \<open>\<open>progressReader.Read\<close>, for an underlying read of \<open>n\<close> bytes: the new reader and the events.\<close>

definition Read_pr :: "progressReader \<Rightarrow> nat \<Rightarrow> progressReader \<times> real list" where
  "Read_pr pr n =
     (let pr = pr\<lparr>read_pr := read_pr pr + int n\<rparr> in
      case progressCb_pr pr of
        Some k \<Rightarrow>
          if total_pr pr > 0 then
            (let progress = real_of_int (read_pr pr) / real_of_int (total_pr pr) in
             if progress - lastReported pr \<ge> 0.01 \<or> progress \<ge> 1.0
             then (pr\<lparr>lastReported := progress\<rparr>, k progress)
             else (pr, []))
          else (pr, [])
      | None \<Rightarrow> (pr, []))"

definition Read_src :: "progressReader option \<Rightarrow> nat \<Rightarrow> progressReader option \<times> real list" where
  "Read_src src n =
     (case src of
        None \<Rightarrow> (None, [])
      | Some pr \<Rightarrow> (case Read_pr pr n of (pr', evs) \<Rightarrow> (Some pr', evs)))"

text \<open>
  \<open>io.Copy(file, src)\<close>: \<open>src\<close> is the stream itself (\<open>None\<close>) or the stream wrapped in a
  \<open>progressReader\<close>.  A failed write ends the loop before the read's own status is looked at.
\<close>

fun io_Copy :: "progressReader option \<Rightarrow> read_step list \<Rightarrow> go_error option \<times> real list" where
  "io_Copy src [] = (None, snd (Read_src src 0))"
| "io_Copy src (s # rest) =
     (case Read_src src (nbytes s) of (src', evs) \<Rightarrow>
        if nbytes s > 0 \<and> \<not> write_ok s then (Some ErrWrite, evs)
        else (case status s of
                RdEOF \<Rightarrow> (None, evs)
              | RdErr \<Rightarrow> (Some ErrRead, evs)
              | RdOk \<Rightarrow> (case io_Copy src' rest of (err, evs') \<Rightarrow> (err, evs @ evs'))))"

text \<open>The outcomes of one fetch: opening the stream, creating the file, the reads.\<close>

record fetch =
  stream_ok :: bool
  contentLength :: int
  create_ok :: bool
  steps :: "read_step list"

text \<open>
  The copy itself, as it is written in \<open>downloadToFile\<close> and again in
  \<open>DownloadForPreview\<close>: through a \<open>progressReader\<close> when there is a callback and the
  content length is known, directly otherwise.
\<close>

definition copy_with_progress ::
  "fetch \<Rightarrow> ProgressCallback \<Rightarrow> go_error option \<times> real list" where
  "copy_with_progress ft progressCb =
     (if progressCb \<noteq> None \<and> contentLength ft > 0 then
        (let reader = \<lparr>total_pr = contentLength ft, read_pr = 0, progressCb_pr = progressCb,
                        lastReported = 0, reportedCount = 0\<rparr>
         in io_Copy (Some reader) (steps ft))
      else io_Copy None (steps ft))"

definition downloadToFile ::
  "fetch \<Rightarrow> string \<Rightarrow> ProgressCallback \<Rightarrow> world \<Rightarrow> go_error option \<times> world" where
  "downloadToFile ft destPath progressCb w =
     (if \<not> stream_ok ft then (Some ErrGetStream, w)
      else if \<not> create_ok ft then (Some ErrCreate, w)
      else
        (let w = w\<lparr>files := insert destPath (files w)\<rparr> in
         case copy_with_progress ft progressCb of
           (err, evs) \<Rightarrow> (err, deliver evs w)))"

section \<open>Package youtube: the acquisition strategies\<close>

text \<open>
  Functions of the Go standard library that build or inspect paths and fold case are
  parameters of the model: no property below depends on what they compute.
\<close>

record stdlib =
  filepath_Join :: "string \<Rightarrow> string \<Rightarrow> string"
  filepath_Dir :: "string \<Rightarrow> string"
  filepath_IsAbs :: "string \<Rightarrow> bool"
  filepath_Ext :: "string \<Rightarrow> string"
  strings_EqualFold :: "string \<Rightarrow> string \<Rightarrow> bool"
  strings_Map :: "(nat \<Rightarrow> nat) \<Rightarrow> string \<Rightarrow> string"

record Video =
  Title :: string
  Formats :: "Format list"

text \<open>
  The outcomes that one call of \<open>DownloadForPreview\<close> meets: the metadata lookup
  (\<open>ExtractVideoID\<close> and \<open>GetVideoContext\<close>), the search for \<open>yt-dlp\<close> (the empty string
  when it is not found), the exit status of each subprocess and whether it leaves its
  output file behind, and the fetches.
\<close>

record downloader_env =
  getVideo :: "go_error + Video"
  ytdlpPath :: string
  ytdlp_exit_ok :: bool
  ytdlp_writes_output :: bool
  video_fetch :: fetch
  audio_fetch :: fetch
  mux_exit_ok :: bool
  mux_leaves_output :: bool
  progressive_fetch :: fetch
  transcode_exit_ok :: bool
  transcode_leaves_output :: bool

definition ytdlp_format_selector :: string where
  "ytdlp_format_selector =
     ''bestvideo[vcodec^=avc1]+bestaudio[acodec^=mp4a]/bestvideo[vcodec^=avc1]+bestaudio/'' @
     ''best[vcodec^=avc1]/bestvideo+bestaudio/best''"

text \<open>
  \<open>downloadWithYtdlp\<close>: the progress of the external downloader is not parsed; the
  callback gets 0.1 before the run and 1.0 after it, whatever the exit status.
\<close>

definition downloadWithYtdlp ::
  "stdlib \<Rightarrow> downloader_env \<Rightarrow> string \<Rightarrow> string \<Rightarrow> string \<Rightarrow> ProgressCallback \<Rightarrow> world
     \<Rightarrow> go_error option \<times> world" where
  "downloadWithYtdlp L env url outPath ffmpegPath progressCb w =
     (if ytdlpPath env = [] then (Some ErrYtdlpNotFound, w)
      else
        (let args = [''-f'', ytdlp_format_selector,
                     ''--merge-output-format'', ''mp4'',
                     ''--ffmpeg-location'', filepath_Dir L ffmpegPath,
                     ''-o'', outPath,
                     ''--no-playlist'',
                     ''--no-warnings'',
                     url];
             w = (case progressCb of None \<Rightarrow> w | Some k \<Rightarrow> deliver (k 0.1) w);
             w = spawn (RunYtdlp (ytdlpPath env) args) w;
             w = (if ytdlp_writes_output env then w\<lparr>files := insert outPath (files w)\<rparr> else w);
             w = (case progressCb of None \<Rightarrow> w | Some k \<Rightarrow> deliver (k 1.0) w)
         in if \<not> ytdlp_exit_ok env then (Some ErrYtdlp, w)
            else if outPath \<notin> files w then (Some ErrOutputNotCreated, w)
            else (None, w)))"

definition extensionFromMimeType :: "string \<Rightarrow> string" where
  "extensionFromMimeType mimeType =
     (if Contains mimeType ''video/mp4'' then ''.mp4''
      else if Contains mimeType ''video/webm'' then ''.webm''
      else [])"

definition needsVideoTranscode :: "Format \<Rightarrow> bool" where
  "needsVideoTranscode videoFmt =
     (Contains (MimeType videoFmt) ''vp9'' \<or> Contains (MimeType videoFmt) ''vp09'' \<or>
      Contains (MimeType videoFmt) ''av01'' \<or> Contains (MimeType videoFmt) ''webm'')"

definition needsAudioTranscode :: "Format \<Rightarrow> bool" where
  "needsAudioTranscode audioFmt =
     (Contains (MimeType audioFmt) ''opus'' \<or> Contains (MimeType audioFmt) ''webm'')"

definition muxArgs :: "Format \<Rightarrow> Format \<Rightarrow> string \<Rightarrow> string \<Rightarrow> string \<Rightarrow> string list" where
  "muxArgs videoFmt audioFmt videoPath audioPath outPath =
     (let args = [];
          args = args @ [''-y'', ''-hide_banner'', ''-loglevel'', ''error''];
          args = args @ [''-i'', videoPath, ''-i'', audioPath];
          args = args @ [''-map'', ''0:v:0'', ''-map'', ''1:a:0''];
          args = (if needsVideoTranscode videoFmt
                  then args @ [''-c:v'', ''libx264'', ''-preset'', ''medium'', ''-crf'', ''18'',
                               ''-pix_fmt'', ''yuv420p'']
                  else args @ [''-c:v'', ''copy'']);
          args = (if needsAudioTranscode audioFmt
                  then args @ [''-c:a'', ''aac'', ''-b:a'', ''192k'']
                  else args @ [''-c:a'', ''copy''])
      in args @ [''-movflags'', ''+faststart'', ''-shortest'', outPath])"

definition muxVideoPath :: "stdlib \<Rightarrow> Video \<Rightarrow> Format \<Rightarrow> string \<Rightarrow> string" where
  "muxVideoPath L video videoFmt destDir =
     (let videoExt = extensionFromMimeType (MimeType videoFmt);
          videoExt = (if videoExt = [] then ''.mp4'' else videoExt);
          baseName = sanitizeFilename (Title video)
      in filepath_Join L destDir (baseName @ ''-video'' @ videoExt))"

definition muxAudioPath :: "stdlib \<Rightarrow> Video \<Rightarrow> Format \<Rightarrow> string \<Rightarrow> string" where
  "muxAudioPath L video audioFmt destDir =
     (let audioExt = extensionFromMimeType (MimeType audioFmt);
          audioExt = (if audioExt = [] then
                        (if Contains (MimeType audioFmt) ''audio/mp4'' then ''.m4a'' else ''.webm'')
                      else audioExt);
          baseName = sanitizeFilename (Title video)
      in filepath_Join L destDir (baseName @ ''-audio'' @ audioExt))"

definition muxOutPath :: "stdlib \<Rightarrow> Video \<Rightarrow> string \<Rightarrow> string" where
  "muxOutPath L video destDir =
     filepath_Join L destDir (sanitizeFilename (Title video) @ ''-preview.mp4'')"

definition downloadAndMux ::
  "stdlib \<Rightarrow> downloader_env \<Rightarrow> Video \<Rightarrow> Format \<Rightarrow> Format \<Rightarrow> string \<Rightarrow> string \<Rightarrow> ProgressCallback
     \<Rightarrow> world \<Rightarrow> (go_error + string) \<times> world" where
  "downloadAndMux L env video videoFmt audioFmt destDir ffmpegPath progressCb w =
     (let videoPath = muxVideoPath L video videoFmt destDir;
          audioPath = muxAudioPath L video audioFmt destDir;
          outPath = muxOutPath L video destDir
      in case downloadToFile (video_fetch env) videoPath (weightedProgress progressCb 0.0 0.75) w of
           (Some err, w) \<Rightarrow> (Inl (ErrVideoStream err), Remove videoPath w)
         | (None, w) \<Rightarrow>
            (case downloadToFile (audio_fetch env) audioPath (weightedProgress progressCb 0.75 0.20) w of
               (Some err, w) \<Rightarrow> (Inl (ErrAudioStream err), Remove audioPath (Remove videoPath w))
             | (None, w) \<Rightarrow>
                (let args = muxArgs videoFmt audioFmt videoPath audioPath outPath;
                     w = spawn (RunMux ffmpegPath args) w;
                     w = (if mux_exit_ok env \<or> mux_leaves_output env
                          then w\<lparr>files := insert outPath (files w)\<rparr> else w)
                 in if \<not> mux_exit_ok env
                    then (Inl ErrMux, Remove outPath (Remove audioPath (Remove videoPath w)))
                    else
                      (let w = Remove videoPath w;
                           w = Remove audioPath w;
                           w = (case progressCb of None \<Rightarrow> w | Some k \<Rightarrow> deliver (k 1.0) w)
                       in (Inr outPath, w)))))"

definition needsSafariTranscode :: "Format \<Rightarrow> bool" where
  "needsSafariTranscode f =
     (if Contains (MimeType f) ''video/mp4'' \<and> Contains (MimeType f) ''avc1'' \<and>
         Contains (MimeType f) ''mp4a''
      then False else True)"

definition transcodeToMP4 ::
  "downloader_env \<Rightarrow> string \<Rightarrow> string \<Rightarrow> string \<Rightarrow> world \<Rightarrow> go_error option \<times> world" where
  "transcodeToMP4 env ffmpegPath inputPath outputPath w =
     (let w = spawn (RunTranscode ffmpegPath inputPath outputPath) w;
          w = (if transcode_exit_ok env \<or> transcode_leaves_output env
               then w\<lparr>files := insert outputPath (files w)\<rparr> else w)
      in if \<not> transcode_exit_ok env then (Some ErrFfmpeg, w) else (None, w))"

text \<open>The progressive strategy: the part of \<open>DownloadForPreview\<close> from \<open>selectFormat\<close> on.\<close>

definition progressivePath :: "stdlib \<Rightarrow> Video \<Rightarrow> Format \<Rightarrow> string \<Rightarrow> string" where
  "progressivePath L video format destDir =
     (let ext = extensionFromMimeType (MimeType format);
          ext = (if ext = [] then ''.mp4'' else ext);
          filename = sanitizeFilename (Title video) @ ext
      in filepath_Join L destDir filename)"

definition progressiveDownload ::
  "stdlib \<Rightarrow> downloader_env \<Rightarrow> Video \<Rightarrow> string \<Rightarrow> string \<Rightarrow> ProgressCallback \<Rightarrow> world
     \<Rightarrow> (go_error + string) \<times> world" where
  "progressiveDownload L env video destDir ffmpegPath progressCb w =
     (case selectFormat (Formats video) of
        None \<Rightarrow> (Inl ErrNoFormat, w)
      | Some format \<Rightarrow>
          if \<not> stream_ok (progressive_fetch env) then (Inl ErrGetStream, w)
          else
            (let destPath = progressivePath L video format destDir
             in if \<not> create_ok (progressive_fetch env) then (Inl ErrCreate, w)
                else
                  (let w = w\<lparr>files := insert destPath (files w)\<rparr> in
                   case copy_with_progress (progressive_fetch env) progressCb of
                     (Some err, evs) \<Rightarrow> (Inl (ErrDownload err), Remove destPath (deliver evs w))
                   | (None, evs) \<Rightarrow>
                      (let w = deliver evs w in
                       if needsSafariTranscode format \<and> ffmpegPath \<noteq> [] then
                         (let previewPath =
                                filepath_Join L destDir (sanitizeFilename (Title video) @ ''-preview.mp4'')
                          in case transcodeToMP4 env ffmpegPath destPath previewPath w of
                               (None, w) \<Rightarrow> (Inr previewPath, Remove destPath w)
                             | (Some err, w) \<Rightarrow> (Inr destPath, w))
                       else (Inr destPath, w)))))"

text \<open>The split-mux strategy and its fall-through to the progressive one.\<close>

definition muxOrProgressive ::
  "stdlib \<Rightarrow> downloader_env \<Rightarrow> Video \<Rightarrow> string \<Rightarrow> string \<Rightarrow> ProgressCallback \<Rightarrow> world
     \<Rightarrow> (go_error + string) \<times> world" where
  "muxOrProgressive L env video destDir ffmpegPath progressCb w =
     (if ffmpegPath \<noteq> [] then
        (case selectMuxFormats (Formats video) of
           (Some v, Some a) \<Rightarrow>
             (case downloadAndMux L env video v a destDir ffmpegPath progressCb w of
                (Inr out, w) \<Rightarrow> (Inr out, w)
              | (Inl muxErr, w) \<Rightarrow> progressiveDownload L env video destDir ffmpegPath progressCb w)
         | _ \<Rightarrow> progressiveDownload L env video destDir ffmpegPath progressCb w)
      else progressiveDownload L env video destDir ffmpegPath progressCb w)"

definition DownloadForPreview ::
  "stdlib \<Rightarrow> downloader_env \<Rightarrow> string \<Rightarrow> string \<Rightarrow> string \<Rightarrow> ProgressCallback \<Rightarrow> world
     \<Rightarrow> (go_error + string) \<times> world" where
  "DownloadForPreview L env url destDir ffmpegPath progressCb w =
     (case getVideo env of
        Inl err \<Rightarrow> (Inl err, w)
      | Inr video \<Rightarrow>
          (let baseName = sanitizeFilename (Title video);
               outPath = filepath_Join L destDir (baseName @ ''-preview.mp4'')
           in if ytdlpPath env \<noteq> [] \<and> ffmpegPath \<noteq> [] then
                (case downloadWithYtdlp L env url outPath ffmpegPath progressCb w of
                   (None, w) \<Rightarrow> (Inr outPath, w)
                 | (Some err, w) \<Rightarrow> muxOrProgressive L env video destDir ffmpegPath progressCb w)
              else muxOrProgressive L env video destDir ffmpegPath progressCb w))"

section \<open>Package ffmpeg: trimming with progress\<close>

record TrimOptions =
  InputPath :: string
  OutputPath :: string
  StartTime :: real
  EndTime :: real
  RemoveAudio :: bool
  MaxHeight :: int
  CRF :: int
  Preset :: string
  AudioBitrate :: string

text \<open>
  \<open>strconv.ParseInt(s, 10, 64)\<close>: an optional sign, then at least one decimal digit and
  nothing else; a value outside the 64-bit range is an error.
\<close>

definition isDigit :: "char \<Rightarrow> bool" where
  "isDigit c = (48 \<le> (of_char c :: nat) \<and> (of_char c :: nat) \<le> 57)"

definition ParseInt :: "string \<Rightarrow> int option" where
  "ParseInt s =
     (case (case s of
              [] \<Rightarrow> (False, [])
            | c # r \<Rightarrow> if c = CHR ''+'' then (False, r)
                       else if c = CHR ''-'' then (True, r)
                       else (False, s)) of
        (neg, ds) \<Rightarrow>
          if ds = [] \<or> \<not> list_all isDigit ds then None
          else
            (let un = foldl (\<lambda>acc c. acc * 10 + (int (of_char c) - 48)) 0 ds in
             if \<not> neg \<and> un \<ge> 2 ^ 63 then None
             else if neg \<and> un > 2 ^ 63 then None
             else Some (if neg then - un else un)))"

text \<open>\<open>strings.Split(s, sep)\<close> for a one-byte separator.\<close>

fun Split :: "string \<Rightarrow> char \<Rightarrow> string list" where
  "Split [] sep = [[]]"
| "Split (c # s) sep =
     (if c = sep then [] # Split s sep
      else (case Split s sep of
              [] \<Rightarrow> [[c]]
            | l # ls \<Rightarrow> (c # l) # ls))"

text \<open>
  The body of the reader's inner loop for one line of encoder output, and the reader's
  handling of one chunk returned by \<open>stdout.Read\<close>: the values with which it calls
  \<open>progressCb\<close>, in order.
\<close>

definition progress_of_line :: "real \<Rightarrow> ProgressCallback \<Rightarrow> string \<Rightarrow> real list" where
  "progress_of_line duration progressCb line =
     (if HasPrefix line ''out_time_ms='' then
        (let timeMs = TrimPrefix line ''out_time_ms='' in
         case ParseInt timeMs of
           Some ms \<Rightarrow>
             (let currentTime = real_of_int ms / 1000000.0 in
              if progressCb \<noteq> None \<and> duration > 0 then
                (let progress = currentTime / duration;
                     progress = (if progress > 1.0 then 1.0 else progress)
                 in [progress])
              else [])
         | None \<Rightarrow> [])
      else [])"

definition progress_of_chunk :: "real \<Rightarrow> ProgressCallback \<Rightarrow> string \<Rightarrow> real list" where
  "progress_of_chunk duration progressCb output =
     concat (map (progress_of_line duration progressCb) (Split output (CHR 0x0A)))"

text \<open>Calling a callback with a sequence of values, one after the other.\<close>

definition call_all :: "ProgressCallback \<Rightarrow> real list \<Rightarrow> real list" where
  "call_all progressCb vals = (case progressCb of None \<Rightarrow> [] | Some k \<Rightarrow> concat (map k vals))"

text \<open>
  The outcomes that one call of \<open>TrimVideoWithProgress\<close> meets.  The reader of the
  encoder's standard output is started with \<open>go\<close> and is never joined, and \<open>cmd.Wait\<close>
  closes the pipe when the encoder exits.  \<open>stdout_chunks\<close> are the buffers that the
  reader's \<open>stdout.Read\<close> calls return before the pipe is closed (what the encoder wrote
  and the reader did not get is lost).  \<open>calls_before_wait\<close> is the number of callback
  calls that the reader makes before the calling goroutine goes on after \<open>cmd.Wait\<close>;
  the reader makes its remaining calls later, after the final call of the calling
  goroutine and possibly after the function has returned.
\<close>

record trim_env =
  mkdir_ok :: bool
  pipe_ok :: bool
  start_ok :: bool
  stdout_chunks :: "string list"
  calls_before_wait :: nat
  wait_ok :: bool

text \<open>
  \<open>Processor.TrimVideoWithProgress\<close>.  The argument list of the encoder (built between
  the checks and \<open>exec.CommandContext\<close>) formats floating-point times and is not modelled;
  the launch is recorded with the encoder's path.  The state that is returned is the
  state once the reader has stopped.
\<close>

definition TrimVideoWithProgress ::
  "string \<Rightarrow> trim_env \<Rightarrow> TrimOptions \<Rightarrow> ProgressCallback \<Rightarrow> world \<Rightarrow> go_error option \<times> world" where
  "TrimVideoWithProgress ffmpegPath env opts progressCb w =
     (if ffmpegPath = [] then (Some ErrPathNotSet, w)
      else if InputPath opts \<notin> files w then (Some ErrInputMissing, w)
      else if EndTime opts \<le> StartTime opts then (Some ErrTimes, w)
      else if \<not> mkdir_ok env then (Some ErrMkdir, w)
      else
        (let duration = EndTime opts - StartTime opts in
         if \<not> pipe_ok env then (Some ErrPipe, w)
         else if \<not> start_ok env then (Some ErrStart, w)
         else
           (let w = spawn (RunTrim ffmpegPath) w;
                calls = concat (map (progress_of_chunk duration progressCb) (stdout_chunks env));
                early = take (calls_before_wait env) calls;
                late = drop (calls_before_wait env) calls;
                w = deliver (call_all progressCb early) w
            in if \<not> wait_ok env then (Some ErrFfmpeg, deliver (call_all progressCb late) w)
               else
                 (let w = (case progressCb of None \<Rightarrow> w | Some k \<Rightarrow> deliver (k 1.0) w);
                      w = deliver (call_all progressCb late) w
                  in (None, w)))))"

section \<open>Package main: exporting a clip\<close>

text \<open>
  \<open>ffmpegInstaller\<close> is \<open>None\<close> for a nil installer and otherwise holds what
  \<open>GetFFmpegPath\<close> returns (\<open>IsInstalled\<close> is: that path is not empty);
  \<open>currentVideoPath\<close> is what \<open>videoServer.GetCurrentVideoPath\<close> returns.  How the
  installer finds the encoder (on macOS it may clear the quarantine attribute of a
  bundled binary with \<open>xattr\<close>) is not modelled: \<open>spawned\<close> records the launches of the
  encoder and of the downloader.
\<close>

record App =
  ffmpegInstaller :: "string option"
  currentVideoPath :: string

record ExportOptions =
  StartTime_opt :: real
  EndTime_opt :: real
  RemoveAudio_opt :: bool
  Filename :: string
  OutputDir :: string
  Quality :: string

definition sanitizeFilename_main :: "stdlib \<Rightarrow> string \<Rightarrow> string" where
  "sanitizeFilename_main L name =
     (let name = TrimSpace name in
      if name = [] then []
      else
        (let name = strings_Map L (\<lambda>r. if r = 47 \<or> r = 92 \<or> r = 0 then 95 else r) name;
             name = Trim name ''. ''
         in if length name > 120 then take 120 name else name))"

definition ExportClip ::
  "stdlib \<Rightarrow> App \<Rightarrow> trim_env \<Rightarrow> ExportOptions \<Rightarrow> world \<Rightarrow> go_error option \<times> world" where
  "ExportClip L a env opts w =
     (case ffmpegInstaller a of
        None \<Rightarrow> (Some ErrNotInstalled, w)
      | Some installedPath \<Rightarrow>
          if \<not> installedPath \<noteq> [] then (Some ErrNotInstalled, w)
          else
            (let inputPath = currentVideoPath a in
             if inputPath = [] then (Some ErrNoVideoLoaded, w)
             else
               (let filename = sanitizeFilename_main L (Filename opts);
                    filename = (if filename = [] then ''clip'' else filename)
                in if \<not> filepath_IsAbs L (OutputDir opts) then (Some ErrNotAbsolute, w)
                   else
                     (let outputName = filename;
                          outputName = (if \<not> strings_EqualFold L (filepath_Ext L outputName) ''.mp4''
                                        then outputName @ ''.mp4'' else outputName);
                          outputPath = filepath_Join L (OutputDir opts) outputName;
                          trimOpts = \<lparr>InputPath = inputPath, OutputPath = outputPath,
                                      StartTime = StartTime_opt opts, EndTime = EndTime_opt opts,
                                      RemoveAudio = RemoveAudio_opt opts,
                                      MaxHeight = 0, CRF = 0, Preset = [], AudioBitrate = []\<rparr>;
                          trimOpts =
                            (if Quality opts = ''1080p'' then
                               trimOpts\<lparr>MaxHeight := 1080, CRF := 21, Preset := ''slow'', AudioBitrate := ''160k''\<rparr>
                             else if Quality opts = ''720p'' then
                               trimOpts\<lparr>MaxHeight := 720, CRF := 23, Preset := ''medium'', AudioBitrate := ''128k''\<rparr>
                             else if Quality opts = ''480p'' then
                               trimOpts\<lparr>MaxHeight := 480, CRF := 26, Preset := ''medium'', AudioBitrate := ''112k''\<rparr>
                             else if Quality opts = ''360p'' then
                               trimOpts\<lparr>MaxHeight := 360, CRF := 28, Preset := ''fast'', AudioBitrate := ''96k''\<rparr>
                             else
                               trimOpts\<lparr>MaxHeight := 0, CRF := 23, Preset := ''medium'', AudioBitrate := ''128k''\<rparr>)
                      in case TrimVideoWithProgress installedPath env trimOpts sink w of
                           (Some err, w) \<Rightarrow> (Some (ErrExport err), w)
                         | (None, w) \<Rightarrow> (None, w)))))"

section \<open>Notions used to state the properties\<close>

text \<open>
  \<open>coalesced prev vs\<close>: every value of \<open>vs\<close> is at least 0.01 above the value reported
  before it (\<open>prev\<close> for the first one) or has reached 1.
\<close>

fun coalesced :: "real \<Rightarrow> real list \<Rightarrow> bool" where
  "coalesced prev [] = True"
| "coalesced prev (v # vs) = ((v - prev \<ge> 0.01 \<or> v \<ge> 1.0) \<and> coalesced v vs)"

text \<open>The number of bytes that \<open>io.Copy\<close> reads from the scripted stream before its loop ends.\<close>

fun bytes_copied :: "read_step list \<Rightarrow> nat" where
  "bytes_copied [] = 0"
| "bytes_copied (s # rest) =
     nbytes s + (if (nbytes s > 0 \<and> \<not> write_ok s) \<or> status s \<noteq> RdOk then 0 else bytes_copied rest)"

text \<open>A fetch succeeds when the stream opens, the file is created and the copy loop ends without error.\<close>

definition fetch_succeeds :: "fetch \<Rightarrow> bool" where
  "fetch_succeeds ft = (stream_ok ft \<and> create_ok ft \<and> fst (io_Copy None (steps ft)) = None)"


text \<open>A progress phase: the raw value is clamped to the unit interval, scaled and shifted.\<close>

definition compose_phase :: "real \<Rightarrow> real \<Rightarrow> real \<Rightarrow> real" where
  "compose_phase base weight raw = base + min 1 (max 0 raw) * weight"

text \<open>The argument that follows the first occurrence of a flag.\<close>

fun flag_value :: "string \<Rightarrow> string list \<Rightarrow> string option" where
  "flag_value flag [] = None"
| "flag_value flag [x] = None"
| "flag_value flag (x # y # rest) = (if x = flag then Some y else flag_value flag (y # rest))"

text \<open>
  The \<open>out_time_ms\<close> values that the reader parses from one chunk of encoder output, and
  the fraction that the export reports for one of them.
\<close>

definition parsed_times :: "string \<Rightarrow> int list" where
  "parsed_times output =
     concat (map (\<lambda>line. if HasPrefix line ''out_time_ms=''
                          then (case ParseInt (TrimPrefix line ''out_time_ms='') of
                                  None \<Rightarrow> [] | Some ms \<Rightarrow> [ms])
                          else [])
                 (Split output (CHR 0x0A)))"

definition export_fraction :: "real \<Rightarrow> int \<Rightarrow> real" where
  "export_fraction duration ms = min (real_of_int ms / 1000000 / duration) 1"

section \<open>Example inputs\<close>

text \<open>
  MIME types as the upstream service writes them, for example
  \<open>video/mp4; codecs="avc1.64001F, mp4a.40.2"\<close>, and a few stream variants.
\<close>

definition mime_quoted :: "string \<Rightarrow> string \<Rightarrow> string" where
  "mime_quoted container codecs = container @ ''; codecs='' @ [CHR 0x22] @ codecs @ [CHR 0x22]"

definition ex_p480 :: Format where
  "ex_p480 = \<lparr>MimeType = mime_quoted ''video/mp4'' ''avc1.42001E, mp4a.40.2'',
               AudioChannels = 2, Width = 854, Height = 480, Bitrate = 900000\<rparr>"
definition ex_p720 :: Format where
  "ex_p720 = \<lparr>MimeType = mime_quoted ''video/mp4'' ''avc1.64001F, mp4a.40.2'',
               AudioChannels = 2, Width = 1280, Height = 720, Bitrate = 2000000\<rparr>"
definition ex_p1080 :: Format where
  "ex_p1080 = \<lparr>MimeType = mime_quoted ''video/mp4'' ''avc1.640028, mp4a.40.2'',
               AudioChannels = 2, Width = 1920, Height = 1080, Bitrate = 4000000\<rparr>"
definition ex_v480 :: Format where
  "ex_v480 = \<lparr>MimeType = mime_quoted ''video/mp4'' ''avc1.4d401e'',
               AudioChannels = 0, Width = 854, Height = 480, Bitrate = 800000\<rparr>"
definition ex_v720 :: Format where
  "ex_v720 = \<lparr>MimeType = mime_quoted ''video/mp4'' ''avc1.4d401f'',
               AudioChannels = 0, Width = 1280, Height = 720, Bitrate = 1800000\<rparr>"
definition ex_v1080 :: Format where
  "ex_v1080 = \<lparr>MimeType = mime_quoted ''video/webm'' ''vp9'',
               AudioChannels = 0, Width = 1920, Height = 1080, Bitrate = 3500000\<rparr>"
definition ex_a128 :: Format where
  "ex_a128 = \<lparr>MimeType = mime_quoted ''audio/mp4'' ''mp4a.40.2'',
               AudioChannels = 2, Width = 0, Height = 0, Bitrate = 128000\<rparr>"
definition ex_a160 :: Format where
  "ex_a160 = \<lparr>MimeType = mime_quoted ''audio/webm'' ''opus'',
               AudioChannels = 2, Width = 0, Height = 0, Bitrate = 160000\<rparr>"

text \<open>
  An empty disk, a stream of 200 bytes that arrives completely, and one that breaks
  after 100 bytes.  \<open>ex_lib\<close> stands in for the path functions of the standard library.
\<close>

definition ex_world :: world where
  "ex_world = \<lparr>files = {}, progress = [], spawned = []\<rparr>"

definition ex_fetch_ok :: fetch where
  "ex_fetch_ok = \<lparr>stream_ok = True, contentLength = 200, create_ok = True,
     steps = [\<lparr>nbytes = 1, status = RdOk, write_ok = True\<rparr>,
              \<lparr>nbytes = 1, status = RdOk, write_ok = True\<rparr>,
              \<lparr>nbytes = 98, status = RdOk, write_ok = True\<rparr>,
              \<lparr>nbytes = 100, status = RdEOF, write_ok = True\<rparr>]\<rparr>"

definition ex_fetch_short :: fetch where
  "ex_fetch_short = \<lparr>stream_ok = True, contentLength = 200, create_ok = True,
     steps = [\<lparr>nbytes = 100, status = RdEOF, write_ok = True\<rparr>]\<rparr>"

definition ex_fetch_broken :: fetch where
  "ex_fetch_broken = \<lparr>stream_ok = True, contentLength = 200, create_ok = True,
     steps = [\<lparr>nbytes = 100, status = RdOk, write_ok = True\<rparr>,
              \<lparr>nbytes = 0, status = RdErr, write_ok = True\<rparr>]\<rparr>"

definition ex_lib :: stdlib where
  "ex_lib = \<lparr>filepath_Join = (\<lambda>dir name. dir @ ''/'' @ name),
              filepath_Dir = (\<lambda>path. ''/usr/bin''),
              filepath_IsAbs = (\<lambda>path. HasPrefix path ''/''),
              filepath_Ext = (\<lambda>path. if HasSuffix path ''.mp4'' then ''.mp4'' else []),
              strings_EqualFold = (\<lambda>s t. s = t),
              strings_Map = (\<lambda>mapping s. s)\<rparr>"

definition ex_video :: Video where
  "ex_video = \<lparr>Title = ''clip'', Formats = [ex_v720, ex_a128, ex_p720]\<rparr>"

definition ex_env :: downloader_env where
  "ex_env = \<lparr>getVideo = Inr ex_video, ytdlpPath = ''/usr/bin/yt-dlp'',
              ytdlp_exit_ok = False, ytdlp_writes_output = False,
              video_fetch = ex_fetch_broken, audio_fetch = ex_fetch_ok,
              mux_exit_ok = True, mux_leaves_output = False,
              progressive_fetch = ex_fetch_ok,
              transcode_exit_ok = True, transcode_leaves_output = False\<rparr>"

definition ex_ytdlp_args :: "string list" where
  "ex_ytdlp_args = [''-f'', ytdlp_format_selector, ''--merge-output-format'', ''mp4'',
                    ''--ffmpeg-location'', ''/usr/bin'', ''-o'', ''/tmp/clip-preview.mp4'',
                    ''--no-playlist'', ''--no-warnings'', ''https://youtu.be/dQw4w9WgXcQ'']"



definition ex_env_muxfail :: downloader_env where
  "ex_env_muxfail = ex_env\<lparr>ytdlpPath := [], video_fetch := ex_fetch_ok,
                            mux_exit_ok := False, mux_leaves_output := True\<rparr>"

text \<open>
  An audio variant in Dolby Digital Plus, a loaded video, an export request and two
  scripts of encoder behaviour: one in which the reader is done before the encoder
  exits, and one in which the encoder first prints a negative time and the reader
  makes its second call only after the encoder has exited.
\<close>

definition ex_ec3 :: Format where
  "ex_ec3 = \<lparr>MimeType = mime_quoted ''audio/mp4'' ''ec-3'',
              AudioChannels = 6, Width = 0, Height = 0, Bitrate = 384000\<rparr>"

definition ex_app :: App where
  "ex_app = \<lparr>ffmpegInstaller = Some ''/usr/bin/ffmpeg'', currentVideoPath = ''/tmp/clip.mp4''\<rparr>"

definition ex_loaded :: world where
  "ex_loaded = \<lparr>files = {''/tmp/clip.mp4''}, progress = [], spawned = []\<rparr>"

definition ex_export :: ExportOptions where
  "ex_export = \<lparr>StartTime_opt = 10, EndTime_opt = 15, RemoveAudio_opt = False,
                 Filename = ''cut'', OutputDir = ''/home/me/clips'', Quality = ''720p''\<rparr>"

definition ex_trim_opts :: TrimOptions where
  "ex_trim_opts = \<lparr>InputPath = ''/tmp/clip.mp4'', OutputPath = ''/home/me/clips/cut.mp4'',
                    StartTime = 10, EndTime = 15, RemoveAudio = False,
                    MaxHeight = 720, CRF = 23, Preset = ''medium'', AudioBitrate = ''128k''\<rparr>"

definition ex_trim_env :: trim_env where
  "ex_trim_env = \<lparr>mkdir_ok = True, pipe_ok = True, start_ok = True,
     stdout_chunks = [''frame=60'' @ [CHR 0x0A] @ ''out_time_ms=2500000'' @ [CHR 0x0A] @
                        ''progress=continue'' @ [CHR 0x0A],
                      ''out_time_ms=6000000'' @ [CHR 0x0A] @ ''progress=end'' @ [CHR 0x0A]],
     calls_before_wait = 2, wait_ok = True\<rparr>"

definition ex_trim_env_late :: trim_env where
  "ex_trim_env_late = \<lparr>mkdir_ok = True, pipe_ok = True, start_ok = True,
     stdout_chunks = [''out_time_ms=-1000000'' @ [CHR 0x0A] @ ''progress=continue'' @ [CHR 0x0A],
                      ''out_time_ms=2500000'' @ [CHR 0x0A] @ ''progress=end'' @ [CHR 0x0A]],
     calls_before_wait = 1, wait_ok = True\<rparr>"

section \<open>File names are sanitized\<close>



lemma invalid_bytes: "invalid = map (\<lambda>c. [c]) [CHR ''/'', CHR 0x5C, CHR '':'', CHR ''*'', CHR ''?'', CHR 0x22, CHR ''<'', CHR ''>'', CHR ''|'']"
  by (simp add: invalid_def)







section \<open>Ranking of stream variants\<close>

lemma best_loop:
  assumes tr: "\<And>x y z. le x y \<Longrightarrow> le y z \<Longrightarrow> le x z"
      and tot: "\<And>x y. le x y \<or> le y x"
      and st: "\<And>b i. step b i = (if le (xs ! i) (xs ! b) then b else i)"
      and n: "0 < n"
  shows "foldl step 0 [1 ..< n] < n \<and> (\<forall>j<n. le (xs ! j) (xs ! foldl step 0 [1 ..< n]))"
  using n
proof (induction n)
  case 0 then show ?case by simp
next
  case (Suc n)
  show ?case
  proof (cases "n = 0")
    case True
    then show ?thesis using tot[of "xs ! 0" "xs ! 0"] by simp
  next
    case False
    then have pos: "0 < n" by simp
    let ?b = "foldl step 0 [1 ..< n]"
    from Suc.IH[OF pos] have b: "?b < n" and all: "\<forall>j<n. le (xs ! j) (xs ! ?b)" by auto
    have upt: "[1 ..< Suc n] = [1 ..< n] @ [n]" using pos by simp
    have fs: "foldl step 0 [1 ..< Suc n] = step ?b n" unfolding upt by simp
    show ?thesis
    proof (cases "le (xs ! n) (xs ! ?b)")
      case True
      then have e: "step ?b n = ?b" by (simp add: st)
      have "\<forall>j<Suc n. le (xs ! j) (xs ! ?b)" using all True by (auto simp: less_Suc_eq)
      then show ?thesis unfolding fs e using b by simp
    next
      case False
      then have e: "step ?b n = n" by (simp add: st)
      from False tot have bn: "le (xs ! ?b) (xs ! n)" by blast
      have "\<forall>j<Suc n. le (xs ! j) (xs ! n)"
      proof (intro allI impI)
        fix j assume "j < Suc n"
        then consider "j < n" | "j = n" by linarith
        then show "le (xs ! j) (xs ! n)"
        proof cases
          case 1 then show ?thesis using all bn tr by blast
        next
          case 2 then show ?thesis using tot[of "xs ! n" "xs ! n"] by simp
        qed
      qed
      then show ?thesis unfolding fs e by simp
    qed
  qed
qed

lemma rank720_le_trans: "rank720_le x y \<Longrightarrow> rank720_le y z \<Longrightarrow> rank720_le x z"
  unfolding rank720_le_def
  by (cases "Height x = 720"; cases "Height y = 720"; cases "Height z = 720"; simp; linarith)

lemma rank720_le_total: "rank720_le x y \<or> rank720_le y x"
  unfolding rank720_le_def
  by (cases "Height x = 720"; cases "Height y = 720"; simp; linarith)

lemma withAudio_step_eq:
  "withAudio_step xs b i = (if rank720_le (xs ! i) (xs ! b) then b else i)"
  unfolding withAudio_step_def rank720_le_def Let_def
  by (cases "Height (xs ! i) = 720"; cases "Height (xs ! b) = 720"; simp; linarith)

lemma pickBestWithAudio_None: "pickBestWithAudio xs = None \<longleftrightarrow> xs = []"
  by (simp add: pickBestWithAudio_def)

lemma pickBestWithAudio_Some: "(\<exists>y. pickBestWithAudio xs = Some y) \<longleftrightarrow> xs \<noteq> []"
  by (simp add: pickBestWithAudio_def)

lemma pickBestWithAudio_best:
  assumes "pickBestWithAudio xs = Some r"
  shows "r \<in> set xs \<and> (\<forall>g\<in>set xs. rank720_le g r)"
proof -
  from assms have ne: "0 < length xs" and r: "r = xs ! foldl (withAudio_step xs) 0 [1 ..< length xs]"
    by (auto simp: pickBestWithAudio_def split: if_splits)
  have "foldl (withAudio_step xs) 0 [1 ..< length xs] < length xs \<and>
        (\<forall>j<length xs. rank720_le (xs ! j) (xs ! foldl (withAudio_step xs) 0 [1 ..< length xs]))"
  proof (rule best_loop[where le = rank720_le, OF _ _ withAudio_step_eq ne])
    show "\<And>x y z. rank720_le x y \<Longrightarrow> rank720_le y z \<Longrightarrow> rank720_le x z" by (rule rank720_le_trans)
    show "\<And>x y. rank720_le x y \<or> rank720_le y x" by (rule rank720_le_total)
  qed
  then show ?thesis unfolding r by (auto simp: in_set_conv_nth)
qed

lemma rankHeight_le_trans: "rankHeight_le x y \<Longrightarrow> rankHeight_le y z \<Longrightarrow> rankHeight_le x z"
  unfolding rankHeight_le_def by auto

lemma rankHeight_le_total: "rankHeight_le x y \<or> rankHeight_le y x"
  unfolding rankHeight_le_def by auto

lemma videoOnly_step_eq:
  "videoOnly_step xs b i = (if rankHeight_le (xs ! i) (xs ! b) then b else i)"
  unfolding videoOnly_step_def rankHeight_le_def Let_def by auto

lemma pickBestVideoOnly_best:
  assumes "pickBestVideoOnly xs = Some r"
  shows "r \<in> set xs \<and> (\<forall>g\<in>set xs. rankHeight_le g r)"
proof -
  from assms have ne: "0 < length xs" and r: "r = xs ! foldl (videoOnly_step xs) 0 [1 ..< length xs]"
    by (auto simp: pickBestVideoOnly_def split: if_splits)
  have "foldl (videoOnly_step xs) 0 [1 ..< length xs] < length xs \<and>
        (\<forall>j<length xs. rankHeight_le (xs ! j) (xs ! foldl (videoOnly_step xs) 0 [1 ..< length xs]))"
  proof (rule best_loop[where le = rankHeight_le, OF _ _ videoOnly_step_eq ne])
    show "\<And>x y z. rankHeight_le x y \<Longrightarrow> rankHeight_le y z \<Longrightarrow> rankHeight_le x z" by (rule rankHeight_le_trans)
    show "\<And>x y. rankHeight_le x y \<or> rankHeight_le y x" by (rule rankHeight_le_total)
  qed
  then show ?thesis unfolding r by (auto simp: in_set_conv_nth)
qed

lemma audioOnly_step_eq:
  "audioOnly_step xs b i = (if (\<lambda>g r. Bitrate g \<le> Bitrate r) (xs ! i) (xs ! b) then b else i)"
  unfolding audioOnly_step_def Let_def by auto

lemma pickBestAudioOnly_best:
  assumes "pickBestAudioOnly xs = Some r"
  shows "r \<in> set xs \<and> (\<forall>g\<in>set xs. Bitrate g \<le> Bitrate r)"
proof -
  from assms have ne: "0 < length xs" and r: "r = xs ! foldl (audioOnly_step xs) 0 [1 ..< length xs]"
    by (auto simp: pickBestAudioOnly_def split: if_splits)
  have "foldl (audioOnly_step xs) 0 [1 ..< length xs] < length xs \<and>
        (\<forall>j<length xs. Bitrate (xs ! j) \<le> Bitrate (xs ! foldl (audioOnly_step xs) 0 [1 ..< length xs]))"
    by (rule best_loop[where le = "\<lambda>g r. Bitrate g \<le> Bitrate r", OF _ _ audioOnly_step_eq ne]) auto
  then show ?thesis unfolding r by (auto simp: in_set_conv_nth)
qed

lemma foldl_collect:
  "foldl collect_step (a, b, c) fs = (a @ filter tier1 fs, b @ filter tier2 fs, c @ filter tier3 fs)"
  by (induction fs arbitrary: a b c) (auto simp: collect_step_def tier1_def tier2_def tier3_def)

lemma foldl_keep: "foldl (\<lambda>acc f. if P f then acc @ [f] else acc) acc fs = acc @ filter P fs"
  by (induction fs arbitrary: acc) auto

lemma selectMuxFormats_eq:
  "selectMuxFormats fs = (pickBestVideoOnly (filter isVideoOnlyCandidate fs), pickBestAudioOnly (filter isAudioOnlyCandidate fs))"
  by (simp add: selectMuxFormats_def foldl_keep)

lemma selectFormat_eq:
  "selectFormat fs =
    (if filter tier1 fs \<noteq> [] then pickBestWithAudio (filter tier1 fs)
     else if filter tier2 fs \<noteq> [] then pickBestWithAudio (filter tier2 fs)
     else if filter tier3 fs \<noteq> [] then pickBestWithAudio (filter tier3 fs)
     else find tier4 fs)"
proof -
  have t4: "(\<lambda>f. Contains (MimeType f) ''video'') = tier4" by (simp add: tier4_def fun_eq_iff)
  have n: "(case pickBestWithAudio xs of None \<Rightarrow> y | Some best \<Rightarrow> Some best) =
           (if xs \<noteq> [] then pickBestWithAudio xs else y)" for xs y
    by (cases "xs = []") (simp_all add: pickBestWithAudio_def)
  show ?thesis
    unfolding selectFormat_def foldl_collect t4 by (simp add: n)
qed

lemma find_first:
  "find P xs = Some r \<Longrightarrow> \<exists>pre post. xs = pre @ r # post \<and> P r \<and> (\<forall>g\<in>set pre. \<not> P g)"
proof (induction xs)
  case Nil then show ?case by simp
next
  case (Cons x xs)
  show ?case
  proof (cases "P x")
    case True
    with Cons.prems have "x = r" by simp
    then show ?thesis using True by (intro exI[of _ "[]"] exI[of _ xs]) simp
  next
    case False
    with Cons obtain pre post where "xs = pre @ r # post" "P r" "\<forall>g\<in>set pre. \<not> P g" by auto
    then show ?thesis using False by (intro exI[of _ "x # pre"] exI[of _ post]) simp
  qed
qed

text \<open>
  Claim C1, as the code has it.  \<open>selectFormat\<close> returns nothing exactly when no variant
  mentions \<open>video\<close>.  Otherwise the result comes from the highest non-empty tier; in
  tiers 1 to 3 it is a best variant of that tier under the ranking \<open>rank720_le\<close> (height
  720 before every other height, then the greater height, then the greater bitrate),
  so it has height 720 whenever the tier holds such a variant; in tier 4 it is the
  first variant of the list that mentions \<open>video\<close>, whatever its height.
\<close>

theorem selectFormat_tiers:
  "(selectFormat fs = None \<longleftrightarrow> \<not> (\<exists>f\<in>set fs. tier4 f)) \<and>
   (\<forall>r. selectFormat fs = Some r \<longrightarrow>
      r \<in> set fs \<and>
      (if \<exists>f\<in>set fs. tier1 f then tier1 r \<and> (\<forall>g\<in>set fs. tier1 g \<longrightarrow> rank720_le g r)
       else if \<exists>f\<in>set fs. tier2 f then tier2 r \<and> (\<forall>g\<in>set fs. tier2 g \<longrightarrow> rank720_le g r)
       else if \<exists>f\<in>set fs. tier3 f then tier3 r \<and> (\<forall>g\<in>set fs. tier3 g \<longrightarrow> rank720_le g r)
       else tier4 r \<and> (\<exists>pre post. fs = pre @ r # post \<and> (\<forall>g\<in>set pre. \<not> tier4 g))))"
proof -
  have ne: "\<And>P. (filter P fs \<noteq> []) = (\<exists>f\<in>set fs. P f)" by (simp add: filter_empty_conv)
  have sub: "tier1 f \<Longrightarrow> tier4 f" "tier2 f \<Longrightarrow> tier4 f" "tier3 f \<Longrightarrow> tier4 f" for f
    by (auto simp: tier1_def tier2_def tier3_def tier4_def)
  have pb: "pickBestWithAudio (filter P fs) = Some r \<Longrightarrow> r \<in> set fs \<and> P r \<and> (\<forall>g\<in>set fs. P g \<longrightarrow> rank720_le g r)" for P r
    using pickBestWithAudio_best[of "filter P fs" r] by auto
  have pn: "filter P fs \<noteq> [] \<Longrightarrow> pickBestWithAudio (filter P fs) \<noteq> None" for P
    by (simp add: pickBestWithAudio_None)
  have none: "selectFormat fs = None \<longleftrightarrow> \<not> (\<exists>f\<in>set fs. tier4 f)"
  proof (cases "\<exists>f\<in>set fs. tier3 f")
    case True
    then have "\<exists>f\<in>set fs. tier4 f" using sub by blast
    moreover have "selectFormat fs \<noteq> None"
    proof -
      have "filter tier3 fs \<noteq> []" using True by (simp add: ne)
      then show ?thesis unfolding selectFormat_eq by (simp add: pickBestWithAudio_Some)
    qed
    ultimately show ?thesis by simp
  next
    case False
    then have "filter tier3 fs = []" by (simp add: filter_empty_conv)
    moreover from False have "filter tier2 fs = []" by (auto simp: filter_empty_conv tier2_def)
    moreover from False have "filter tier1 fs = []" by (auto simp: filter_empty_conv tier1_def tier2_def)
    ultimately have "selectFormat fs = find tier4 fs"
      unfolding selectFormat_eq by simp
    then show ?thesis by (auto simp: find_None_iff)
  qed
  have some: "selectFormat fs = Some r \<Longrightarrow>
      r \<in> set fs \<and>
      (if \<exists>f\<in>set fs. tier1 f then tier1 r \<and> (\<forall>g\<in>set fs. tier1 g \<longrightarrow> rank720_le g r)
       else if \<exists>f\<in>set fs. tier2 f then tier2 r \<and> (\<forall>g\<in>set fs. tier2 g \<longrightarrow> rank720_le g r)
       else if \<exists>f\<in>set fs. tier3 f then tier3 r \<and> (\<forall>g\<in>set fs. tier3 g \<longrightarrow> rank720_le g r)
       else tier4 r \<and> (\<exists>pre post. fs = pre @ r # post \<and> (\<forall>g\<in>set pre. \<not> tier4 g)))" for r
  proof -
    assume a: "selectFormat fs = Some r"
    consider (t1) "\<exists>f\<in>set fs. tier1 f"
      | (t2) "\<not> (\<exists>f\<in>set fs. tier1 f)" "\<exists>f\<in>set fs. tier2 f"
      | (t3) "\<not> (\<exists>f\<in>set fs. tier1 f)" "\<not> (\<exists>f\<in>set fs. tier2 f)" "\<exists>f\<in>set fs. tier3 f"
      | (t4) "\<not> (\<exists>f\<in>set fs. tier1 f)" "\<not> (\<exists>f\<in>set fs. tier2 f)" "\<not> (\<exists>f\<in>set fs. tier3 f)"
      by blast
    then show ?thesis
    proof cases
      case t1
      with a have "pickBestWithAudio (filter tier1 fs) = Some r" by (simp add: selectFormat_eq ne)
      from pb[OF this] t1 show ?thesis by simp
    next
      case t2
      with a have "pickBestWithAudio (filter tier2 fs) = Some r" by (simp add: selectFormat_eq ne)
      from pb[OF this] t2 show ?thesis by simp
    next
      case t3
      with a have "pickBestWithAudio (filter tier3 fs) = Some r" by (simp add: selectFormat_eq ne)
      from pb[OF this] t3 show ?thesis by simp
    next
      case t4
      with a have f: "find tier4 fs = Some r" by (simp add: selectFormat_eq ne)
      from find_first[OF f] obtain pre post where
        p: "fs = pre @ r # post" "tier4 r" "\<forall>g\<in>set pre. \<not> tier4 g" by blast
      then have "r \<in> set fs" by simp
      then show ?thesis using t4 p by auto
    qed
  qed
  from none some show ?thesis by blast
qed

text \<open>
  Three progressive variants at heights 480, 720 and 1080 in the top tier: the 720 one
  is chosen.
\<close>

theorem selectFormat_tiers_witness:
  "selectFormat [ex_p480, ex_p720, ex_p1080] = Some ex_p720 \<and>
   tier1 ex_p480 \<and> tier1 ex_p720 \<and> tier1 ex_p1080 \<and>
   rank720_le ex_p480 ex_p720 \<and> rank720_le ex_p1080 ex_p720"
proof -
  have e: "selectFormat [ex_p480, ex_p720, ex_p1080] = Some ex_p720" by code_simp
  have t: "tier1 ex_p480 \<and> tier1 ex_p720 \<and> tier1 ex_p1080" by code_simp
  show ?thesis using selectFormat_tiers[of "[ex_p480, ex_p720, ex_p1080]"] t by (simp add: e)
qed

text \<open>
  The claim as stated fails in tier 4: with two video-only variants, the first one
  (height 480) is returned although the other one has height 720.
\<close>

theorem selectFormat_tier4_counterexample:
  "selectFormat [ex_v480, ex_v720] = Some ex_v480 \<and>
   \<not> tier3 ex_v480 \<and> \<not> tier3 ex_v720 \<and> tier4 ex_v480 \<and> tier4 ex_v720 \<and>
   Height ex_v720 = 720 \<and> Height ex_v480 \<noteq> 720 \<and> \<not> rank720_le ex_v720 ex_v480"
  by code_simp

text \<open>
  Claim C3.  Split-pair selection keeps as video-only candidates the variants with no
  audio channel whose MIME type is \<open>video/mp4\<close> or \<open>video/webm\<close>, and as audio-only
  candidates the variants with an audio channel whose MIME type is \<open>audio/mp4\<close> or
  \<open>audio/webm\<close>.  The chosen video has the greatest height among the candidates and,
  among those of that height, the greatest bitrate; the chosen audio has the greatest
  bitrate.  Height 720 plays no special role.
\<close>

theorem selectMuxFormats_best:
  "(case fst (selectMuxFormats fs) of
      None \<Rightarrow> \<not> (\<exists>f\<in>set fs. isVideoOnlyCandidate f)
    | Some v \<Rightarrow>
        v \<in> set fs \<and> isVideoOnlyCandidate v \<and>
        (Contains (MimeType v) ''video/mp4'' \<or> Contains (MimeType v) ''video/webm'') \<and>
        (\<forall>g\<in>set fs. isVideoOnlyCandidate g \<longrightarrow>
           Height g \<le> Height v \<and> (Height g = Height v \<longrightarrow> Bitrate g \<le> Bitrate v))) \<and>
   (case snd (selectMuxFormats fs) of
      None \<Rightarrow> \<not> (\<exists>f\<in>set fs. isAudioOnlyCandidate f)
    | Some a \<Rightarrow>
        a \<in> set fs \<and> isAudioOnlyCandidate a \<and>
        (Contains (MimeType a) ''audio/mp4'' \<or> Contains (MimeType a) ''audio/webm'') \<and>
        (\<forall>g\<in>set fs. isAudioOnlyCandidate g \<longrightarrow> Bitrate g \<le> Bitrate a))"
proof -
  have v: "(case pickBestVideoOnly (filter isVideoOnlyCandidate fs) of
      None \<Rightarrow> \<not> (\<exists>f\<in>set fs. isVideoOnlyCandidate f)
    | Some v \<Rightarrow>
        v \<in> set fs \<and> isVideoOnlyCandidate v \<and>
        (Contains (MimeType v) ''video/mp4'' \<or> Contains (MimeType v) ''video/webm'') \<and>
        (\<forall>g\<in>set fs. isVideoOnlyCandidate g \<longrightarrow>
           Height g \<le> Height v \<and> (Height g = Height v \<longrightarrow> Bitrate g \<le> Bitrate v)))"
  proof (cases "pickBestVideoOnly (filter isVideoOnlyCandidate fs)")
    case None
    then have "filter isVideoOnlyCandidate fs = []"
      by (simp add: pickBestVideoOnly_def split: if_splits)
    then show ?thesis using None by (simp add: filter_empty_conv)
  next
    case (Some v)
    from pickBestVideoOnly_best[OF Some]
    have m: "v \<in> set fs" "isVideoOnlyCandidate v"
      and b: "\<forall>g\<in>set fs. isVideoOnlyCandidate g \<longrightarrow> rankHeight_le g v" by auto
    from m(2) have c: "Contains (MimeType v) ''video/mp4'' \<or> Contains (MimeType v) ''video/webm''"
      by (auto simp: isVideoOnlyCandidate_def Let_def)
    from b have "\<forall>g\<in>set fs. isVideoOnlyCandidate g \<longrightarrow>
           Height g \<le> Height v \<and> (Height g = Height v \<longrightarrow> Bitrate g \<le> Bitrate v)"
      by (auto simp: rankHeight_le_def)
    then show ?thesis using Some m c by simp
  qed
  have a: "(case pickBestAudioOnly (filter isAudioOnlyCandidate fs) of
      None \<Rightarrow> \<not> (\<exists>f\<in>set fs. isAudioOnlyCandidate f)
    | Some a \<Rightarrow>
        a \<in> set fs \<and> isAudioOnlyCandidate a \<and>
        (Contains (MimeType a) ''audio/mp4'' \<or> Contains (MimeType a) ''audio/webm'') \<and>
        (\<forall>g\<in>set fs. isAudioOnlyCandidate g \<longrightarrow> Bitrate g \<le> Bitrate a))"
  proof (cases "pickBestAudioOnly (filter isAudioOnlyCandidate fs)")
    case None
    then have "filter isAudioOnlyCandidate fs = []"
      by (simp add: pickBestAudioOnly_def split: if_splits)
    then show ?thesis using None by (simp add: filter_empty_conv)
  next
    case (Some a)
    from pickBestAudioOnly_best[OF Some]
    have m: "a \<in> set fs" "isAudioOnlyCandidate a"
      and b: "\<forall>g\<in>set fs. isAudioOnlyCandidate g \<longrightarrow> Bitrate g \<le> Bitrate a" by auto
    from m(2) have c: "Contains (MimeType a) ''audio/mp4'' \<or> Contains (MimeType a) ''audio/webm''"
      by (auto simp: isAudioOnlyCandidate_def Let_def)
    show ?thesis using Some m c b by simp
  qed
  show ?thesis unfolding selectMuxFormats_eq using v a by simp
qed

text \<open>Video-only candidates at 480, 720 and 1080: the 1080 one is chosen.\<close>

theorem selectMuxFormats_best_witness:
  "selectMuxFormats [ex_v480, ex_v720, ex_v1080, ex_a128, ex_a160, ex_p720] = (Some ex_v1080, Some ex_a160) \<and>
   isVideoOnlyCandidate ex_v720 \<and> Height ex_v720 = 720 \<and> Height ex_v1080 = 1080 \<and>
   Height ex_v720 \<le> Height ex_v1080 \<and> Bitrate ex_a128 \<le> Bitrate ex_a160"
proof -
  have e: "selectMuxFormats [ex_v480, ex_v720, ex_v1080, ex_a128, ex_a160, ex_p720] = (Some ex_v1080, Some ex_a160)"
    by code_simp
  have c: "isVideoOnlyCandidate ex_v720 \<and> isAudioOnlyCandidate ex_a128 \<and> Height ex_v720 = 720 \<and> Height ex_v1080 = 1080"
    by code_simp
  show ?thesis
    using selectMuxFormats_best[of "[ex_v480, ex_v720, ex_v1080, ex_a128, ex_a160, ex_p720]"] c
    by (simp add: e)
qed

section \<open>The copy loop and its progress events\<close>

lemma Read_pr_cb [simp]: "progressCb_pr (fst (Read_pr pr n)) = progressCb_pr pr"
  by (simp add: Read_pr_def Let_def split: option.splits)

lemma Read_pr_total [simp]: "total_pr (fst (Read_pr pr n)) = total_pr pr"
  by (simp add: Read_pr_def Let_def split: option.splits)

lemma Read_pr_read [simp]: "read_pr (fst (Read_pr pr n)) = read_pr pr + int n"
  by (simp add: Read_pr_def Let_def split: option.splits)

lemma Read_src_Some [simp]: "Read_src (Some pr) n = (Some (fst (Read_pr pr n)), snd (Read_pr pr n))"
  by (simp add: Read_src_def split: prod.splits)

lemma io_Copy_Some_Cons:
  "io_Copy (Some pr) (s # rest) =
     (if nbytes s > 0 \<and> \<not> write_ok s then (Some ErrWrite, snd (Read_pr pr (nbytes s)))
      else case status s of
             RdEOF \<Rightarrow> (None, snd (Read_pr pr (nbytes s)))
           | RdErr \<Rightarrow> (Some ErrRead, snd (Read_pr pr (nbytes s)))
           | RdOk \<Rightarrow> (fst (io_Copy (Some (fst (Read_pr pr (nbytes s)))) rest),
                      snd (Read_pr pr (nbytes s)) @ snd (io_Copy (Some (fst (Read_pr pr (nbytes s)))) rest)))"
  by (simp add: io_Copy.simps Read_src_def split: prod.splits read_status.splits)

lemma io_Copy_Some_Nil: "io_Copy (Some pr) [] = (None, snd (Read_pr pr 0))"
  by (simp add: io_Copy.simps Read_src_def split: prod.splits)

declare io_Copy.simps [simp del]

lemma io_Copy_snd_cases:
  "snd (io_Copy (Some pr) (s # ss)) = snd (Read_pr pr (nbytes s)) \<or>
   snd (io_Copy (Some pr) (s # ss)) =
     snd (Read_pr pr (nbytes s)) @ snd (io_Copy (Some (fst (Read_pr pr (nbytes s)))) ss)"
  by (simp add: io_Copy_Some_Cons split: read_status.splits)


lemma io_Copy_None: "snd (io_Copy None ss) = []"
  by (induction ss) (auto simp: io_Copy.simps Read_src_def split: prod.splits read_status.splits)

text \<open>one read of a reader whose callback maps a fraction to one event\<close>
lemma Read_pr_single:
  assumes "progressCb_pr pr = Some (\<lambda>p. [g p])" "total_pr pr > 0"
  shows "(snd (Read_pr pr n) = [] \<and> lastReported (fst (Read_pr pr n)) = lastReported pr) \<or>
         (snd (Read_pr pr n) = [g ((real_of_int (read_pr pr + int n)) / real_of_int (total_pr pr))] \<and>
          lastReported (fst (Read_pr pr n)) = (real_of_int (read_pr pr + int n)) / real_of_int (total_pr pr) \<and>
          ((real_of_int (read_pr pr + int n)) / real_of_int (total_pr pr) - lastReported pr \<ge> 0.01 \<or>
           (real_of_int (read_pr pr + int n)) / real_of_int (total_pr pr) \<ge> 1))"
  using assms by (simp add: Read_pr_def Let_def)

lemma coalesced_append:
  "coalesced l (xs @ ys) = (coalesced l xs \<and> coalesced (if xs = [] then l else last xs) ys)"
  by (induction xs arbitrary: l) auto

lemma io_Copy_coalesced:
  assumes "progressCb_pr pr = sink" "total_pr pr > 0"
  shows "coalesced (lastReported pr) (snd (io_Copy (Some pr) ss))"
  using assms
proof (induction ss arbitrary: pr)
  case Nil
  from Read_pr_single[of pr "\<lambda>p. p" 0] Nil show ?case
    by (auto simp: io_Copy_Some_Nil sink_def)
next
  case (Cons s ss)
  let ?pr' = "fst (Read_pr pr (nbytes s))"
  have ih: "coalesced (lastReported ?pr') (snd (io_Copy (Some ?pr') ss))"
    by (rule Cons.IH) (simp_all add: Cons.prems)
  from Read_pr_single[of pr "\<lambda>p. p" "nbytes s"] Cons.prems
  have r: "(snd (Read_pr pr (nbytes s)) = [] \<and> lastReported ?pr' = lastReported pr) \<or>
         (snd (Read_pr pr (nbytes s)) = [lastReported ?pr'] \<and>
          (lastReported ?pr' - lastReported pr \<ge> 0.01 \<or> lastReported ?pr' \<ge> 1))"
    by (auto simp: sink_def)
  then show ?case using ih
    by (auto simp: io_Copy_Some_Cons coalesced_append split: read_status.splits)
qed

lemma io_Copy_final:
  assumes "progressCb_pr pr = sink" "total_pr pr > 0"
      and "fst (io_Copy (Some pr) ss) = None"
      and "read_pr pr + int (bytes_copied ss) = total_pr pr"
  shows "snd (io_Copy (Some pr) ss) \<noteq> [] \<and> last (snd (io_Copy (Some pr) ss)) = 1"
  using assms
proof (induction ss arbitrary: pr)
  case Nil
  then show ?case by (simp add: io_Copy_Some_Nil Read_pr_def sink_def Let_def)
next
  case (Cons s ss)
  let ?pr' = "fst (Read_pr pr (nbytes s))"
  show ?case
  proof (cases "status s")
    case RdOk
    with Cons.prems have w: "\<not> (nbytes s > 0 \<and> \<not> write_ok s)"
      by (auto simp: io_Copy_Some_Cons split: if_splits)
    have "snd (io_Copy (Some ?pr') ss) \<noteq> [] \<and> last (snd (io_Copy (Some ?pr') ss)) = 1"
    proof (rule Cons.IH)
      show "progressCb_pr ?pr' = sink" using Cons.prems by simp
      show "0 < total_pr ?pr'" using Cons.prems by simp
      show "fst (io_Copy (Some ?pr') ss) = None" using Cons.prems RdOk w by (simp add: io_Copy_Some_Cons)
      show "read_pr ?pr' + int (bytes_copied ss) = total_pr ?pr'" using Cons.prems RdOk w by auto
    qed
    then show ?thesis using RdOk w by (auto simp: io_Copy_Some_Cons)
  next
    case RdEOF
    with Cons.prems have w: "\<not> (nbytes s > 0 \<and> \<not> write_ok s)"
      by (auto simp: io_Copy_Some_Cons split: if_splits)
    from Cons.prems RdEOF have "read_pr pr + int (nbytes s) = total_pr pr" by simp
    then show ?thesis using RdEOF w Cons.prems(1,2)
      by (simp add: io_Copy_Some_Cons Read_pr_def sink_def Let_def)
  next
    case RdErr
    with Cons.prems show ?thesis by (auto simp: io_Copy_Some_Cons split: if_splits)
  qed
qed

lemma io_Copy_sorted:
  assumes "progressCb_pr pr = Some (\<lambda>p. [g p])" "total_pr pr > 0" "mono g"
  shows "sorted (snd (io_Copy (Some pr) ss)) \<and>
         (\<forall>x\<in>set (snd (io_Copy (Some pr) ss)). g (real_of_int (read_pr pr) / real_of_int (total_pr pr)) \<le> x)"
  using assms
proof (induction ss arbitrary: pr)
  case Nil
  from Read_pr_single[of pr g 0] Nil show ?case
    by (auto simp: io_Copy_Some_Nil)
next
  case (Cons s ss)
  let ?pr' = "fst (Read_pr pr (nbytes s))"
  let ?T = "real_of_int (total_pr pr)"
  have ih: "sorted (snd (io_Copy (Some ?pr') ss)) \<and>
         (\<forall>x\<in>set (snd (io_Copy (Some ?pr') ss)). g (real_of_int (read_pr pr + int (nbytes s)) / ?T) \<le> x)"
    using Cons.IH[of ?pr'] Cons.prems by simp
  have le: "real_of_int (read_pr pr) / ?T \<le> real_of_int (read_pr pr + int (nbytes s)) / ?T"
    using Cons.prems(2) by (simp add: divide_right_mono)
  then have gle: "g (real_of_int (read_pr pr) / ?T) \<le> g (real_of_int (read_pr pr + int (nbytes s)) / ?T)"
    using \<open>mono g\<close> by (simp add: monoD)
  define ev where "ev = snd (Read_pr pr (nbytes s))"
  define rest where "rest = snd (io_Copy (Some ?pr') ss)"
  define lo where "lo = g (real_of_int (read_pr pr) / ?T)"
  define mid where "mid = g (real_of_int (read_pr pr + int (nbytes s)) / ?T)"
  from Read_pr_single[of pr g "nbytes s"] Cons.prems
  have r: "ev = [] \<or> ev = [mid]" unfolding ev_def mid_def by auto
  have a: "sorted rest" "\<forall>x\<in>set rest. mid \<le> x" "lo \<le> mid"
    using ih gle unfolding rest_def mid_def lo_def by auto
  have 1: "sorted ev \<and> (\<forall>x\<in>set ev. lo \<le> x)" using r a by auto
  have 2: "sorted (ev @ rest) \<and> (\<forall>x\<in>set (ev @ rest). lo \<le> x)"
    using r a by (auto simp: sorted_append)
  from io_Copy_snd_cases[of pr s ss]
  have "snd (io_Copy (Some pr) (s # ss)) = ev \<or> snd (io_Copy (Some pr) (s # ss)) = ev @ rest"
    unfolding ev_def rest_def .
  then show ?case using 1 2 unfolding lo_def by auto
qed

lemma io_Copy_range:
  assumes "progressCb_pr pr = Some (\<lambda>p. [g p])"
  shows "set (snd (io_Copy (Some pr) ss)) \<subseteq> range g"
  using assms
proof (induction ss arbitrary: pr)
  case Nil
  then show ?case by (auto simp: io_Copy_Some_Nil Read_pr_def Let_def)
next
  case (Cons s ss)
  let ?pr' = "fst (Read_pr pr (nbytes s))"
  have ih: "set (snd (io_Copy (Some ?pr') ss)) \<subseteq> range g" using Cons.IH[of ?pr'] Cons.prems by simp
  have "set (snd (Read_pr pr (nbytes s))) \<subseteq> range g" using Cons.prems by (auto simp: Read_pr_def Let_def)
  then show ?case using ih by (auto simp: io_Copy_Some_Cons split: read_status.splits)
qed

lemma io_Copy_upper:
  assumes "progressCb_pr pr = sink" "total_pr pr > 0"
  shows "\<forall>x\<in>set (snd (io_Copy (Some pr) ss)). x \<le> real_of_int (read_pr pr + int (bytes_copied ss)) / real_of_int (total_pr pr)"
  using assms
proof (induction ss arbitrary: pr)
  case Nil
  then show ?case by (auto simp: io_Copy_Some_Nil Read_pr_def Let_def sink_def)
next
  case (Cons s ss)
  let ?pr' = "fst (Read_pr pr (nbytes s))"
  let ?T = "real_of_int (total_pr pr)"
  have ih: "\<forall>x\<in>set (snd (io_Copy (Some ?pr') ss)). x \<le> real_of_int (read_pr pr + int (nbytes s) + int (bytes_copied ss)) / ?T"
    using Cons.IH[of ?pr'] Cons.prems by simp
  have h: "\<forall>x\<in>set (snd (Read_pr pr (nbytes s))). x \<le> real_of_int (read_pr pr + int (nbytes s)) / ?T"
    using Cons.prems by (auto simp: Read_pr_def Let_def sink_def)
  have m: "real_of_int (read_pr pr + int (nbytes s)) / ?T \<le> real_of_int (read_pr pr + int (nbytes s) + int k) / ?T" for k
    using Cons.prems(2) by (simp add: divide_right_mono)
  show ?case
  proof (cases "(nbytes s > 0 \<and> \<not> write_ok s) \<or> status s \<noteq> RdOk")
    case True
    then show ?thesis using h by (auto simp: io_Copy_Some_Cons split: read_status.splits)
  next
    case False
    then have b: "bytes_copied (s # ss) = nbytes s + bytes_copied ss" by auto
    have "\<forall>x\<in>set (snd (Read_pr pr (nbytes s))). x \<le> real_of_int (read_pr pr + int (nbytes s) + int (bytes_copied ss)) / ?T"
      using h m[of "bytes_copied ss"] by fastforce
    then show ?thesis using ih False unfolding b
      by (auto simp: io_Copy_Some_Cons add.assoc split: read_status.splits)
  qed
qed

section \<open>Progress within one strategy\<close>

lemma downloadToFile_eq:
  "downloadToFile ft d cb w =
     (if \<not> stream_ok ft then (Some ErrGetStream, w)
      else if \<not> create_ok ft then (Some ErrCreate, w)
      else (fst (copy_with_progress ft cb),
            w\<lparr>files := insert d (files w), progress := progress w @ snd (copy_with_progress ft cb)\<rparr>))"
  by (simp add: downloadToFile_def deliver_def Let_def split: prod.splits)

lemma weightedProgress_sink:
  "weightedProgress sink b wt = Some (\<lambda>p. [compose_phase b wt p])"
  by (auto simp: weightedProgress_def sink_def compose_phase_def Let_def fun_eq_iff min_def max_def)

lemma mono_compose_phase: "0 \<le> wt \<Longrightarrow> mono (compose_phase b wt)"
proof (rule monoI)
  fix x y :: real
  assume w: "0 \<le> wt" and xy: "x \<le> y"
  from xy have "min 1 (max 0 x) \<le> min 1 (max 0 y)" by auto
  then have "min 1 (max 0 x) * wt \<le> min 1 (max 0 y) * wt" using w by (rule mult_right_mono)
  then show "compose_phase b wt x \<le> compose_phase b wt y" by (simp add: compose_phase_def)
qed

lemma range_compose_phase: "0 \<le> wt \<Longrightarrow> range (compose_phase b wt) \<subseteq> {b .. b + wt}"
proof -
  assume w: "0 \<le> wt"
  have "0 \<le> min 1 (max 0 p) * wt \<and> min 1 (max 0 p) * wt \<le> wt" for p :: real
  proof -
    have "0 \<le> min 1 (max 0 p)" "min 1 (max 0 p) \<le> 1" by auto
    then show ?thesis using w mult_left_le_one_le[of wt "min 1 (max 0 p)"] by simp
  qed
  then show ?thesis by (auto simp: compose_phase_def)
qed

lemma copy_weighted:
  assumes "0 \<le> wt"
  shows "sorted (snd (copy_with_progress ft (weightedProgress sink b wt))) \<and>
         set (snd (copy_with_progress ft (weightedProgress sink b wt))) \<subseteq> {b .. b + wt}"
proof (cases "contentLength ft > 0")
  case True
  define reader where "reader = \<lparr>total_pr = contentLength ft, read_pr = 0,
    progressCb_pr = weightedProgress sink b wt, lastReported = 0, reportedCount = 0\<rparr>"
  have c: "copy_with_progress ft (weightedProgress sink b wt) = io_Copy (Some reader) (steps ft)"
    using True by (simp add: copy_with_progress_def reader_def weightedProgress_sink)
  have cb: "progressCb_pr reader = Some (\<lambda>p. [compose_phase b wt p])"
    by (simp add: reader_def weightedProgress_sink)
  have t: "total_pr reader > 0" using True by (simp add: reader_def)
  from io_Copy_sorted[OF cb t mono_compose_phase[OF assms]] io_Copy_range[OF cb]
       range_compose_phase[OF assms, of b]
  show ?thesis unfolding c by blast
next
  case False
  then show ?thesis by (simp add: copy_with_progress_def io_Copy_None)
qed

lemma copy_sink:
  "sorted (snd (copy_with_progress ft sink)) \<and> (\<forall>x\<in>set (snd (copy_with_progress ft sink)). 0 \<le> x) \<and>
   (int (bytes_copied (steps ft)) \<le> contentLength ft \<longrightarrow>
      (\<forall>x\<in>set (snd (copy_with_progress ft sink)). x \<le> 1))"
proof (cases "contentLength ft > 0")
  case True
  define reader where "reader = \<lparr>total_pr = contentLength ft, read_pr = 0,
    progressCb_pr = sink, lastReported = 0, reportedCount = 0\<rparr>"
  have c: "copy_with_progress ft sink = io_Copy (Some reader) (steps ft)"
    using True by (simp add: copy_with_progress_def reader_def sink_def)
  have cb: "progressCb_pr reader = Some (\<lambda>p. [(\<lambda>x. x) p])" by (simp add: reader_def sink_def)
  have cb': "progressCb_pr reader = sink" by (simp add: reader_def)
  have t: "total_pr reader > 0" using True by (simp add: reader_def)
  have m: "mono (\<lambda>x::real. x)" by (simp add: mono_def)
  from io_Copy_sorted[OF cb t m]
  have s: "sorted (snd (io_Copy (Some reader) (steps ft)))"
    and lo: "\<forall>x\<in>set (snd (io_Copy (Some reader) (steps ft))). 0 \<le> x"
    by (auto simp: reader_def)
  have hi: "\<forall>x\<in>set (snd (io_Copy (Some reader) (steps ft))). x \<le> 1"
    if b: "int (bytes_copied (steps ft)) \<le> contentLength ft"
  proof
    fix x assume "x \<in> set (snd (io_Copy (Some reader) (steps ft)))"
    with io_Copy_upper[OF cb' t, of "steps ft"]
    have "x \<le> real_of_int (int (bytes_copied (steps ft))) / real_of_int (contentLength ft)"
      by (auto simp: reader_def)
    also have "\<dots> \<le> 1" using b True by simp
    finally show "x \<le> 1" .
  qed
  show ?thesis unfolding c using s lo hi by blast
next
  case False
  then show ?thesis by (simp add: copy_with_progress_def io_Copy_None sink_def)
qed

lemma downloadAndMux_progress:
  "\<exists>seg. progress (snd (downloadAndMux L env video v a destDir ffmpegPath sink w)) = progress w @ seg \<and>
         sorted seg \<and> set seg \<subseteq> {0 .. 1}"
proof -
  define ev where "ev = snd (copy_with_progress (video_fetch env) (weightedProgress sink 0.0 0.75))"
  define ea where "ea = snd (copy_with_progress (audio_fetch env) (weightedProgress sink 0.75 0.20))"
  have v: "sorted ev" "set ev \<subseteq> {0 .. 0.75}"
    using copy_weighted[of "0.75" "video_fetch env" 0] unfolding ev_def by auto
  have a: "sorted ea" "set ea \<subseteq> {0.75 .. 0.95}"
    using copy_weighted[of "0.20" "audio_fetch env" "0.75"] unfolding ea_def by auto
  have s1: "sorted (ev @ ea)" using v a by (fastforce simp: sorted_append)
  have s2: "sorted (ev @ ea @ [1])" using v a by (fastforce simp: sorted_append)
  have r: "set ev \<subseteq> {0 .. 1}" "set ea \<subseteq> {0 .. 1}" using v a by auto
  have "progress (snd (downloadAndMux L env video v a destDir ffmpegPath sink w)) \<in>
          {progress w, progress w @ ev, progress w @ ev @ ea, progress w @ ev @ ea @ [1]}"
    unfolding downloadAndMux_def downloadToFile_eq ev_def[symmetric] ea_def[symmetric]
    by (simp add: Let_def Remove_def deliver_def spawn_def sink_def split: option.splits)
  then consider "progress (snd (downloadAndMux L env video v a destDir ffmpegPath sink w)) = progress w @ []"
    | "progress (snd (downloadAndMux L env video v a destDir ffmpegPath sink w)) = progress w @ ev"
    | "progress (snd (downloadAndMux L env video v a destDir ffmpegPath sink w)) = progress w @ (ev @ ea)"
    | "progress (snd (downloadAndMux L env video v a destDir ffmpegPath sink w)) = progress w @ (ev @ ea @ [1])"
    by auto
  then show ?thesis
  proof cases
    case 1 then show ?thesis by (intro exI[of _ "[]"]) simp
  next
    case 2 then show ?thesis using v r by (intro exI[of _ ev]) simp
  next
    case 3 then show ?thesis using s1 r by (intro exI[of _ "ev @ ea"]) simp
  next
    case 4 then show ?thesis using s2 r by (intro exI[of _ "ev @ ea @ [1]"]) simp
  qed
qed

section \<open>Progress of one fetch\<close>

lemma io_Copy_fst: "fst (io_Copy src ss) = fst (io_Copy None ss)"
proof (induction ss arbitrary: src)
  case Nil then show ?case by (simp add: io_Copy.simps)
next
  case (Cons s ss)
  obtain src' evs where r: "Read_src src (nbytes s) = (src', evs)" by (cases "Read_src src (nbytes s)")
  have n: "Read_src None (nbytes s) = (None, [])" by (simp add: Read_src_def)
  show ?case using Cons.IH[of src'] Cons.IH[of None]
    by (auto simp: io_Copy.simps r n split: read_status.splits prod.splits)
qed

lemma copy_with_progress_fst: "fst (copy_with_progress ft cb) = fst (io_Copy None (steps ft))"
  unfolding copy_with_progress_def Let_def by (auto intro: io_Copy_fst)

lemma copy_with_progress_unknown: "contentLength ft \<le> 0 \<Longrightarrow> snd (copy_with_progress ft cb) = []"
  by (simp add: copy_with_progress_def io_Copy_None)

lemma downloadToFile_fst: "fst (downloadToFile ft d cb w) = None \<longleftrightarrow> fetch_succeeds ft"
  by (simp add: downloadToFile_eq fetch_succeeds_def copy_with_progress_fst)

lemma io_Copy_final_ge:
  assumes "progressCb_pr pr = sink" "total_pr pr > 0"
      and "fst (io_Copy (Some pr) ss) = None"
      and "read_pr pr + int (bytes_copied ss) \<ge> total_pr pr"
  shows "snd (io_Copy (Some pr) ss) \<noteq> [] \<and>
         last (snd (io_Copy (Some pr) ss)) =
           real_of_int (read_pr pr + int (bytes_copied ss)) / real_of_int (total_pr pr)"
  using assms
proof (induction ss arbitrary: pr)
  case Nil
  then show ?case by (simp add: io_Copy_Some_Nil Read_pr_def sink_def Let_def)
next
  case (Cons s ss)
  let ?pr' = "fst (Read_pr pr (nbytes s))"
  show ?case
  proof (cases "status s")
    case RdOk
    with Cons.prems have w: "\<not> (nbytes s > 0 \<and> \<not> write_ok s)"
      by (auto simp: io_Copy_Some_Cons split: if_splits)
    have "snd (io_Copy (Some ?pr') ss) \<noteq> [] \<and>
          last (snd (io_Copy (Some ?pr') ss)) =
            real_of_int (read_pr ?pr' + int (bytes_copied ss)) / real_of_int (total_pr ?pr')"
    proof (rule Cons.IH)
      show "progressCb_pr ?pr' = sink" using Cons.prems by simp
      show "0 < total_pr ?pr'" using Cons.prems by simp
      show "fst (io_Copy (Some ?pr') ss) = None" using Cons.prems RdOk w by (simp add: io_Copy_Some_Cons)
      show "total_pr ?pr' \<le> read_pr ?pr' + int (bytes_copied ss)" using Cons.prems RdOk w by auto
    qed
    then show ?thesis using RdOk w by (auto simp: io_Copy_Some_Cons add.assoc)
  next
    case RdEOF
    with Cons.prems have w: "\<not> (nbytes s > 0 \<and> \<not> write_ok s)"
      by (auto simp: io_Copy_Some_Cons split: if_splits)
    from Cons.prems RdEOF have "read_pr pr + int (nbytes s) \<ge> total_pr pr" by simp
    then show ?thesis using RdEOF w Cons.prems(1,2)
      by (simp add: io_Copy_Some_Cons Read_pr_def sink_def Let_def)
  next
    case RdErr
    with Cons.prems show ?thesis by (auto simp: io_Copy_Some_Cons split: if_splits)
  qed
qed

text \<open>
  Claim C7, as the code has it.  With a known total size (\<open>contentLength > 0\<close>) every
  value that the fetch delivers is at least 0.01 above the value delivered before it (0
  at the start) or has reached 1.  When the copy ends without error after at least the
  announced number of bytes, the last delivered value is the number of bytes copied
  divided by the announced size, which is 1 when the two agree.  When fewer bytes than
  announced are copied, every delivered value is below 1.  With an unknown total size
  (\<open>contentLength \<le> 0\<close>) no value is delivered, whatever the callback.
\<close>

theorem downloadToFile_coalesced:
  "(\<exists>evs. progress (snd (downloadToFile ft destPath sink w)) = progress w @ evs \<and>
          coalesced 0 evs \<and>
          (contentLength ft > 0 \<and> fetch_succeeds ft \<and>
           int (bytes_copied (steps ft)) = contentLength ft \<longrightarrow> evs \<noteq> [] \<and> last evs = 1) \<and>
          (contentLength ft > 0 \<and> fetch_succeeds ft \<and>
           int (bytes_copied (steps ft)) \<ge> contentLength ft \<longrightarrow>
             evs \<noteq> [] \<and>
             last evs = real (bytes_copied (steps ft)) / real_of_int (contentLength ft)) \<and>
          (contentLength ft > 0 \<and> int (bytes_copied (steps ft)) < contentLength ft \<longrightarrow>
             (\<forall>x\<in>set evs. x < 1))) \<and>
   (contentLength ft \<le> 0 \<longrightarrow> progress (snd (downloadToFile ft destPath progressCb w)) = progress w)"
proof -
  define evs where "evs = (if stream_ok ft \<and> create_ok ft then snd (copy_with_progress ft sink) else [])"
  have p: "progress (snd (downloadToFile ft destPath sink w)) = progress w @ evs"
    by (simp add: downloadToFile_eq evs_def)
  define reader where "reader = \<lparr>total_pr = contentLength ft, read_pr = 0,
    progressCb_pr = sink, lastReported = 0, reportedCount = 0\<rparr>"
  have c: "contentLength ft > 0 \<Longrightarrow> copy_with_progress ft sink = io_Copy (Some reader) (steps ft)"
    by (simp add: copy_with_progress_def reader_def sink_def)
  have co: "coalesced 0 evs"
  proof (cases "contentLength ft > 0")
    case True
    have "coalesced (lastReported reader) (snd (io_Copy (Some reader) (steps ft)))"
      by (rule io_Copy_coalesced) (simp_all add: reader_def True)
    then show ?thesis using c[OF True] by (simp add: evs_def reader_def)
  next
    case False
    then show ?thesis by (simp add: evs_def copy_with_progress_unknown)
  qed
  have ge: "evs \<noteq> [] \<and> last evs = real (bytes_copied (steps ft)) / real_of_int (contentLength ft)"
    if h: "contentLength ft > 0" "fetch_succeeds ft" "int (bytes_copied (steps ft)) \<ge> contentLength ft"
  proof -
    have ok: "stream_ok ft \<and> create_ok ft" using h(2) by (simp add: fetch_succeeds_def)
    have "fst (io_Copy (Some reader) (steps ft)) = None"
      using h(2) by (simp add: fetch_succeeds_def io_Copy_fst[of "Some reader"])
    then have "snd (io_Copy (Some reader) (steps ft)) \<noteq> [] \<and>
          last (snd (io_Copy (Some reader) (steps ft))) =
            real_of_int (read_pr reader + int (bytes_copied (steps ft))) / real_of_int (total_pr reader)"
      by (intro io_Copy_final_ge) (simp_all add: reader_def h)
    then show ?thesis using c[OF h(1)] ok by (simp add: evs_def reader_def)
  qed
  have fin: "evs \<noteq> [] \<and> last evs = 1"
    if h: "contentLength ft > 0" "fetch_succeeds ft" "int (bytes_copied (steps ft)) = contentLength ft"
  proof -
    from ge[OF h(1,2)] h(3) have "evs \<noteq> [] \<and>
       last evs = real (bytes_copied (steps ft)) / real_of_int (contentLength ft)" by simp
    moreover have "real (bytes_copied (steps ft)) = real_of_int (contentLength ft)"
      using h(3) by (metis of_int_of_nat_eq)
    ultimately show ?thesis using h(1) by simp
  qed
  have lt: "\<forall>x\<in>set evs. x < 1"
    if h: "contentLength ft > 0" "int (bytes_copied (steps ft)) < contentLength ft"
  proof
    fix x assume x: "x \<in> set evs"
    then have "x \<in> set (snd (io_Copy (Some reader) (steps ft)))"
      using c[OF h(1)] by (auto simp: evs_def split: if_splits)
    with io_Copy_upper[of reader "steps ft"]
    have "x \<le> real_of_int (int (bytes_copied (steps ft))) / real_of_int (contentLength ft)"
      by (auto simp: reader_def h(1))
    also have "\<dots> < 1" using h by simp
    finally show "x < 1" .
  qed
  have un: "contentLength ft \<le> 0 \<Longrightarrow> progress (snd (downloadToFile ft destPath progressCb w)) = progress w"
    by (simp add: downloadToFile_eq copy_with_progress_unknown)
  from p co fin ge lt un show ?thesis by blast
qed

lemma ex_fetch_ok_events:
  "downloadToFile ex_fetch_ok ''v.mp4'' sink ex_world =
     (None, \<lparr>files = {''v.mp4''}, progress = [1/100, 1/2, 1], spawned = []\<rparr>)"
  by (simp add: downloadToFile_def copy_with_progress_def ex_fetch_ok_def ex_world_def sink_def
      io_Copy.simps Read_src_def Read_pr_def deliver_def Let_def)

lemma ex_fetch_short_events:
  "downloadToFile ex_fetch_short ''v.mp4'' sink ex_world =
     (None, \<lparr>files = {''v.mp4''}, progress = [1/2], spawned = []\<rparr>)"
  by (simp add: downloadToFile_def copy_with_progress_def ex_fetch_short_def ex_world_def sink_def
      io_Copy.simps Read_src_def Read_pr_def deliver_def Let_def)

text \<open>
  A stream of 200 bytes read in pieces of 1, 1, 98 and 100 bytes reports 0.01, 0.5
  and 1; the same stream with an unknown length reports nothing; a stream announced as
  200 bytes that ends after 100 stays below 1.
\<close>

theorem downloadToFile_coalesced_witness:
  "progress (snd (downloadToFile ex_fetch_ok ''v.mp4'' sink ex_world)) = [1/100, 1/2, 1] \<and>
   coalesced 0 [1/100, 1/2, 1] \<and> fetch_succeeds ex_fetch_ok \<and>
   int (bytes_copied (steps ex_fetch_ok)) = contentLength ex_fetch_ok \<and>
   progress (snd (downloadToFile (ex_fetch_ok\<lparr>contentLength := 0\<rparr>) ''v.mp4'' sink ex_world)) = [] \<and>
   int (bytes_copied (steps ex_fetch_short)) < contentLength ex_fetch_short \<and>
   last (progress (snd (downloadToFile ex_fetch_short ''v.mp4'' sink ex_world))) < 1"
proof -
  have s: "fetch_succeeds ex_fetch_ok"
    by (simp add: fetch_succeeds_def ex_fetch_ok_def io_Copy.simps Read_src_def)
  have b: "int (bytes_copied (steps ex_fetch_ok)) = contentLength ex_fetch_ok"
    by (simp add: ex_fetch_ok_def)
  have pw: "progress ex_world = []" by (simp add: ex_world_def)
  have c: "int (bytes_copied (steps ex_fetch_short)) < contentLength ex_fetch_short"
          "0 < contentLength ex_fetch_short"
    by (simp_all add: ex_fetch_short_def)
  have l: "last (progress (snd (downloadToFile ex_fetch_short ''v.mp4'' sink ex_world))) < 1"
    using downloadToFile_coalesced[of ex_fetch_short "''v.mp4''" ex_world sink] c
    by (simp add: ex_fetch_short_events pw)
  show ?thesis
    using downloadToFile_coalesced[of ex_fetch_ok "''v.mp4''" ex_world sink]
          downloadToFile_coalesced[of "ex_fetch_ok\<lparr>contentLength := 0\<rparr>" "''v.mp4''" ex_world sink] s b c(1) l
    by (simp add: ex_fetch_ok_events pw)
qed

text \<open>
  Claim C7 as worded says that a value of 1 is delivered at completion of every transfer
  of known size.  A stream announced as 200 bytes that ends, without error, after 100
  bytes completes successfully and delivers only 0.5.
\<close>

theorem downloadToFile_short_stream_counterexample:
  "0 < contentLength ex_fetch_short \<and> fetch_succeeds ex_fetch_short \<and>
   fst (downloadToFile ex_fetch_short ''v.mp4'' sink ex_world) = None \<and>
   progress (snd (downloadToFile ex_fetch_short ''v.mp4'' sink ex_world)) = [1/2]"
proof -
  have a: "fetch_succeeds ex_fetch_short"
    by (simp add: fetch_succeeds_def ex_fetch_short_def io_Copy.simps Read_src_def)
  have b: "0 < contentLength ex_fetch_short" by (simp add: ex_fetch_short_def)
  have c: "fst (downloadToFile ex_fetch_short ''v.mp4'' sink ex_world) = None"
    by (simp only: ex_fetch_short_events fst_conv)
  have d: "progress (snd (downloadToFile ex_fetch_short ''v.mp4'' sink ex_world)) = [1/2]"
    by (simp only: ex_fetch_short_events snd_conv world.simps)
  from a b c d show ?thesis by blast
qed

section \<open>Progress of one job\<close>

lemma downloadWithYtdlp_progress:
  "progress (snd (downloadWithYtdlp L env url outPath ffmpegPath sink w)) =
     progress w @ (if ytdlpPath env = [] then [] else [1/10, 1])"
  by (simp add: downloadWithYtdlp_def Let_def deliver_def spawn_def sink_def)

lemma progressiveDownload_progress:
  "progress (snd (progressiveDownload L env video destDir ffmpegPath cb w)) =
     progress w @
       (case selectFormat (Formats video) of
          None \<Rightarrow> []
        | Some f \<Rightarrow> if stream_ok (progressive_fetch env) \<and> create_ok (progressive_fetch env)
                    then snd (copy_with_progress (progressive_fetch env) cb) else [])"
  by (simp add: progressiveDownload_def transcodeToMP4_def Let_def deliver_def spawn_def Remove_def
           split: option.splits prod.splits)

lemma progressiveDownload_runs:
  "\<exists>seg. progress (snd (progressiveDownload L env video destDir ffmpegPath sink w)) = progress w @ seg \<and>
         sorted seg \<and> (\<forall>x\<in>set seg. 0 \<le> x) \<and>
         (int (bytes_copied (steps (progressive_fetch env))) \<le> contentLength (progressive_fetch env)
            \<longrightarrow> (\<forall>x\<in>set seg. x \<le> 1))"
proof -
  define seg where "seg = (case selectFormat (Formats video) of
          None \<Rightarrow> []
        | Some f \<Rightarrow> if stream_ok (progressive_fetch env) \<and> create_ok (progressive_fetch env)
                    then snd (copy_with_progress (progressive_fetch env) sink) else [])"
  have "seg = [] \<or> seg = snd (copy_with_progress (progressive_fetch env) sink)"
    by (simp add: seg_def split: option.splits)
  then have "sorted seg \<and> (\<forall>x\<in>set seg. 0 \<le> x) \<and>
         (int (bytes_copied (steps (progressive_fetch env))) \<le> contentLength (progressive_fetch env)
            \<longrightarrow> (\<forall>x\<in>set seg. x \<le> 1))"
    using copy_sink[of "progressive_fetch env"] by auto
  then show ?thesis using progressiveDownload_progress[of L env video destDir ffmpegPath sink w]
    unfolding seg_def[symmetric] by blast
qed

lemma muxOrProgressive_runs:
  "\<exists>s2 s3. progress (snd (muxOrProgressive L env video destDir ffmpegPath sink w)) = progress w @ s2 @ s3 \<and>
     sorted s2 \<and> set s2 \<subseteq> {0 .. 1} \<and> sorted s3 \<and> (\<forall>x\<in>set s3. 0 \<le> x) \<and>
     (int (bytes_copied (steps (progressive_fetch env))) \<le> contentLength (progressive_fetch env)
        \<longrightarrow> (\<forall>x\<in>set s3. x \<le> 1))"
proof -
  let ?P = "\<lambda>w'. \<exists>s2 s3. progress w' = progress w @ s2 @ s3 \<and>
     sorted s2 \<and> set s2 \<subseteq> {0 .. 1} \<and> sorted s3 \<and> (\<forall>x\<in>set s3. 0 \<le> x) \<and>
     (int (bytes_copied (steps (progressive_fetch env))) \<le> contentLength (progressive_fetch env)
        \<longrightarrow> (\<forall>x\<in>set s3. x \<le> 1))"
  have direct: "?P (snd (progressiveDownload L env video destDir ffmpegPath sink w))"
  proof -
    from progressiveDownload_runs[of L env video destDir ffmpegPath w]
    obtain seg where "progress (snd (progressiveDownload L env video destDir ffmpegPath sink w)) = progress w @ [] @ seg"
      "sorted seg" "\<forall>x\<in>set seg. 0 \<le> x"
      "int (bytes_copied (steps (progressive_fetch env))) \<le> contentLength (progressive_fetch env)
            \<longrightarrow> (\<forall>x\<in>set seg. x \<le> 1)" by auto
    then show ?thesis by (intro exI[of _ "[]"] exI[of _ seg]) simp
  qed
  have mux: "?P (snd (downloadAndMux L env video v a destDir ffmpegPath sink w))" for v a
  proof -
    from downloadAndMux_progress[of L env video v a destDir ffmpegPath w]
    obtain seg where "progress (snd (downloadAndMux L env video v a destDir ffmpegPath sink w)) = progress w @ seg @ []"
      "sorted seg" "set seg \<subseteq> {0 .. 1}" by auto
    then show ?thesis by (intro exI[of _ seg] exI[of _ "[]"]) simp
  qed
  have both: "?P (snd (progressiveDownload L env video destDir ffmpegPath sink
                    (snd (downloadAndMux L env video v a destDir ffmpegPath sink w))))" for v a
  proof -
    let ?w1 = "snd (downloadAndMux L env video v a destDir ffmpegPath sink w)"
    from downloadAndMux_progress[of L env video v a destDir ffmpegPath w]
    obtain s2 where 1: "progress ?w1 = progress w @ s2" "sorted s2" "set s2 \<subseteq> {0 .. 1}" by auto
    from progressiveDownload_runs[of L env video destDir ffmpegPath ?w1]
    obtain s3 where 2: "progress (snd (progressiveDownload L env video destDir ffmpegPath sink ?w1)) = progress ?w1 @ s3"
      "sorted s3" "\<forall>x\<in>set s3. 0 \<le> x"
      "int (bytes_copied (steps (progressive_fetch env))) \<le> contentLength (progressive_fetch env)
            \<longrightarrow> (\<forall>x\<in>set s3. x \<le> 1)" by auto
    show ?thesis using 1 2 by (intro exI[of _ s2] exI[of _ s3]) simp
  qed
  show ?thesis
  proof (cases "ffmpegPath \<noteq> []")
    case False
    then show ?thesis using direct by (simp add: muxOrProgressive_def)
  next
    case True
    show ?thesis
    proof (cases "selectMuxFormats (Formats video)")
      case (Pair vo ao)
      show ?thesis
      proof (cases vo)
        case None then show ?thesis using direct True Pair by (simp add: muxOrProgressive_def)
      next
        case (Some v)
        note sv = this
        show ?thesis
        proof (cases ao)
          case None then show ?thesis using direct True Pair sv by (simp add: muxOrProgressive_def)
        next
          case (Some a)
          obtain r w1 where d: "downloadAndMux L env video v a destDir ffmpegPath sink w = (r, w1)"
            by (cases "downloadAndMux L env video v a destDir ffmpegPath sink w")
          show ?thesis
          proof (cases r)
            case (Inr out)
            then show ?thesis using mux[of v a] True Pair sv Some d by (simp add: muxOrProgressive_def)
          next
            case (Inl e)
            then show ?thesis using both[of v a] True Pair sv Some d by (simp add: muxOrProgressive_def)
          qed
        qed
      qed
    qed
  qed
qed

text \<open>
  Claim C2, as the code has it.  The values delivered during one job are the values of
  the external downloader (none, or 0.1 then 1), followed by those of the split-mux
  strategy, followed by those of the progressive strategy.  Each of the three runs is
  non-decreasing; the first two lie in the unit interval, the third is non-negative and
  stays below 1 when the stream delivers no more bytes than it announced.  Nothing
  orders the end of one run and the start of the next.
\<close>

theorem DownloadForPreview_progress_runs:
  "\<exists>s1 s2 s3.
     progress (snd (DownloadForPreview L env url destDir ffmpegPath sink w)) = progress w @ s1 @ s2 @ s3 \<and>
     (s1 = [] \<or> s1 = [1/10, 1]) \<and>
     sorted s1 \<and> set s1 \<subseteq> {0 .. 1} \<and>
     sorted s2 \<and> set s2 \<subseteq> {0 .. 1} \<and>
     sorted s3 \<and> (\<forall>x\<in>set s3. 0 \<le> x) \<and>
     (int (bytes_copied (steps (progressive_fetch env))) \<le> contentLength (progressive_fetch env)
        \<longrightarrow> (\<forall>x\<in>set s3. x \<le> 1))"
proof (cases "getVideo env")
  case (Inl err)
  then have "progress (snd (DownloadForPreview L env url destDir ffmpegPath sink w)) = progress w @ [] @ [] @ []"
    by (simp add: DownloadForPreview_def)
  then show ?thesis by (intro exI[of _ "[]"]) simp
next
  case (Inr video)
  define outPath where "outPath = filepath_Join L destDir (sanitizeFilename (Title video) @ ''-preview.mp4'')"
  have later: "\<exists>s2 s3. progress (snd (muxOrProgressive L env video destDir ffmpegPath sink w0)) = progress w0 @ s2 @ s3 \<and>
     sorted s2 \<and> set s2 \<subseteq> {0 .. 1} \<and> sorted s3 \<and> (\<forall>x\<in>set s3. 0 \<le> x) \<and>
     (int (bytes_copied (steps (progressive_fetch env))) \<le> contentLength (progressive_fetch env)
        \<longrightarrow> (\<forall>x\<in>set s3. x \<le> 1))" for w0
    by (rule muxOrProgressive_runs)
  show ?thesis
  proof (cases "ytdlpPath env \<noteq> [] \<and> ffmpegPath \<noteq> []")
    case False
    then have e: "DownloadForPreview L env url destDir ffmpegPath sink w =
                  muxOrProgressive L env video destDir ffmpegPath sink w"
      using Inr by (auto simp: DownloadForPreview_def Let_def)
    from later[of w] obtain s2 s3 where
      "progress (snd (muxOrProgressive L env video destDir ffmpegPath sink w)) = progress w @ [] @ s2 @ s3"
      "sorted s2" "set s2 \<subseteq> {0 .. 1}" "sorted s3" "\<forall>x\<in>set s3. 0 \<le> x"
      "int (bytes_copied (steps (progressive_fetch env))) \<le> contentLength (progressive_fetch env)
        \<longrightarrow> (\<forall>x\<in>set s3. x \<le> 1)" by auto
    then show ?thesis unfolding e by (intro exI[of _ "[]"] exI[of _ s2] exI[of _ s3]) simp
  next
    case True
    obtain r w1 where y: "downloadWithYtdlp L env url outPath ffmpegPath sink w = (r, w1)"
      by (cases "downloadWithYtdlp L env url outPath ffmpegPath sink w")
    have p1: "progress w1 = progress w @ [1/10, 1]"
      using downloadWithYtdlp_progress[of L env url outPath ffmpegPath w] True y by simp
    show ?thesis
    proof (cases r)
      case None
      then have "DownloadForPreview L env url destDir ffmpegPath sink w = (Inr outPath, w1)"
        using Inr True y by (simp add: DownloadForPreview_def Let_def outPath_def)
      then have "progress (snd (DownloadForPreview L env url destDir ffmpegPath sink w)) = progress w @ [1/10, 1] @ [] @ []"
        using p1 by simp
      then show ?thesis by (intro exI[of _ "[1/10, 1]"] exI[of _ "[]"]) simp
    next
      case (Some err)
      then have e: "DownloadForPreview L env url destDir ffmpegPath sink w =
                    muxOrProgressive L env video destDir ffmpegPath sink w1"
        using Inr True y by (simp add: DownloadForPreview_def Let_def outPath_def)
      from later[of w1] obtain s2 s3 where
        "progress (snd (muxOrProgressive L env video destDir ffmpegPath sink w1)) = progress w1 @ s2 @ s3"
        "sorted s2" "set s2 \<subseteq> {0 .. 1}" "sorted s3" "\<forall>x\<in>set s3. 0 \<le> x"
        "int (bytes_copied (steps (progressive_fetch env))) \<le> contentLength (progressive_fetch env)
          \<longrightarrow> (\<forall>x\<in>set s3. x \<le> 1)" by auto
      then show ?thesis unfolding e p1 by (intro exI[of _ "[1/10, 1]"] exI[of _ s2] exI[of _ s3]) simp
    qed
  qed
qed

lemma ex_san: "sanitizeFilename ''clip'' = ''clip''" by code_simp

lemma ex_mux: "selectMuxFormats [ex_v720, ex_a128, ex_p720] = (Some ex_v720, Some ex_a128)" by code_simp

lemma ex_sel: "selectFormat [ex_v720, ex_a128, ex_p720] = Some ex_p720" by code_simp

lemma ex_paths:
  "muxVideoPath ex_lib ex_video ex_v720 ''/tmp'' = ''/tmp/clip-video.mp4''"
  "muxAudioPath ex_lib ex_video ex_a128 ''/tmp'' = ''/tmp/clip-audio.m4a''"
  "muxOutPath ex_lib ex_video ''/tmp'' = ''/tmp/clip-preview.mp4''"
  "progressivePath ex_lib ex_video ex_p720 ''/tmp'' = ''/tmp/clip.mp4''"
  by code_simp+

lemma ex_needs: "needsSafariTranscode ex_p720 = False" by code_simp

lemma ex_broken_events:
  "copy_with_progress ex_fetch_broken (weightedProgress sink 0 (3/4)) = (Some ErrRead, [3/8])"
  by (simp add: copy_with_progress_def ex_fetch_broken_def weightedProgress_def sink_def
      io_Copy.simps Read_src_def Read_pr_def Let_def)

lemma ex_ok_events:
  "copy_with_progress ex_fetch_ok sink = (None, [1/100, 1/2, 1])"
  by (simp add: copy_with_progress_def ex_fetch_ok_def sink_def
      io_Copy.simps Read_src_def Read_pr_def Let_def)

lemma sink_case: "(case sink of None \<Rightarrow> a | Some k \<Rightarrow> f k) = f (\<lambda>progress. [progress])"
  by (simp add: sink_def)

lemma ex_lib_fields:
  "filepath_Join ex_lib dir name = dir @ ''/'' @ name"
  "filepath_Dir ex_lib path = ''/usr/bin''"
  "filepath_IsAbs ex_lib path = HasPrefix path ''/''"
  by (simp_all add: ex_lib_def)

lemma ex_env_fields:
  "getVideo ex_env = Inr ex_video" "ytdlpPath ex_env = ''/usr/bin/yt-dlp''"
  "ytdlp_exit_ok ex_env = False" "ytdlp_writes_output ex_env = False"
  "video_fetch ex_env = ex_fetch_broken" "audio_fetch ex_env = ex_fetch_ok"
  "progressive_fetch ex_env = ex_fetch_ok"
  by (simp_all add: ex_env_def)

lemma ex_fetch_fields:
  "stream_ok ex_fetch_ok" "create_ok ex_fetch_ok" "stream_ok ex_fetch_broken" "create_ok ex_fetch_broken"
  by (simp_all add: ex_fetch_ok_def ex_fetch_broken_def)

lemma ex_video_fields: "Title ex_video = ''clip''" "Formats ex_video = [ex_v720, ex_a128, ex_p720]"
  by (simp_all add: ex_video_def)

lemma ex_step1:
  "downloadWithYtdlp ex_lib ex_env ''https://youtu.be/dQw4w9WgXcQ'' ''/tmp/clip-preview.mp4''
       ''/usr/bin/ffmpeg'' sink ex_world =
     (Some ErrYtdlp, \<lparr>files = {}, progress = [1/10, 1],
                      spawned = [RunYtdlp ''/usr/bin/yt-dlp'' ex_ytdlp_args]\<rparr>)"
  by (simp add: downloadWithYtdlp_def ex_env_fields ex_lib_fields sink_case ex_world_def
        deliver_def spawn_def Let_def ex_ytdlp_args_def)

lemma ex_step2:
  "downloadAndMux ex_lib ex_env ex_video ex_v720 ex_a128 ''/tmp'' ''/usr/bin/ffmpeg'' sink
       \<lparr>files = {}, progress = [1/10, 1], spawned = [RunYtdlp ''/usr/bin/yt-dlp'' ex_ytdlp_args]\<rparr> =
     (Inl (ErrVideoStream ErrRead),
      \<lparr>files = {}, progress = [1/10, 1, 3/8], spawned = [RunYtdlp ''/usr/bin/yt-dlp'' ex_ytdlp_args]\<rparr>)"
  by (simp add: downloadAndMux_def downloadToFile_def ex_env_fields ex_fetch_fields ex_paths
        ex_broken_events deliver_def Remove_def Let_def)

lemma ex_step3:
  "progressiveDownload ex_lib ex_env ex_video ''/tmp'' ''/usr/bin/ffmpeg'' sink
       \<lparr>files = {}, progress = [1/10, 1, 3/8], spawned = [RunYtdlp ''/usr/bin/yt-dlp'' ex_ytdlp_args]\<rparr> =
     (Inr ''/tmp/clip.mp4'',
      \<lparr>files = {''/tmp/clip.mp4''}, progress = [1/10, 1, 3/8, 1/100, 1/2, 1],
       spawned = [RunYtdlp ''/usr/bin/yt-dlp'' ex_ytdlp_args]\<rparr>)"
  by (simp add: progressiveDownload_def ex_env_fields ex_fetch_fields ex_video_fields ex_sel ex_paths
        ex_needs ex_ok_events deliver_def Let_def)

lemma ex_run:
  "DownloadForPreview ex_lib ex_env ''https://youtu.be/dQw4w9WgXcQ'' ''/tmp'' ''/usr/bin/ffmpeg'' sink ex_world =
     (Inr ''/tmp/clip.mp4'',
      \<lparr>files = {''/tmp/clip.mp4''}, progress = [1/10, 1, 3/8, 1/100, 1/2, 1],
       spawned = [RunYtdlp ''/usr/bin/yt-dlp'' ex_ytdlp_args]\<rparr>)"
  by (simp add: DownloadForPreview_def muxOrProgressive_def ex_env_fields ex_video_fields ex_san
        ex_lib_fields ex_step1 ex_mux ex_step2 ex_step3 Let_def)

text \<open>
  The claim as stated fails: when the external downloader exits with an error its 1.0
  has already been delivered, and the strategies that follow start again from small
  values.
\<close>

theorem DownloadForPreview_progress_counterexample:
  "progress (snd (DownloadForPreview ex_lib ex_env ''https://youtu.be/dQw4w9WgXcQ'' ''/tmp''
       ''/usr/bin/ffmpeg'' sink ex_world)) = [1/10, 1, 3/8, 1/100, 1/2, 1] \<and>
   \<not> sorted (progress (snd (DownloadForPreview ex_lib ex_env ''https://youtu.be/dQw4w9WgXcQ'' ''/tmp''
       ''/usr/bin/ffmpeg'' sink ex_world)))"
  by (simp add: ex_run)

text \<open>The three runs of a job whose first two strategies fail.\<close>

theorem DownloadForPreview_progress_runs_witness:
  "progress (snd (DownloadForPreview ex_lib ex_env ''https://youtu.be/dQw4w9WgXcQ'' ''/tmp''
       ''/usr/bin/ffmpeg'' sink ex_world)) = progress ex_world @ [1/10, 1] @ [3/8] @ [1/100, 1/2, 1] \<and>
   sorted [1/10, 1 :: real] \<and> sorted [3/8 :: real] \<and> sorted [1/100, 1/2, 1 :: real] \<and>
   int (bytes_copied (steps (progressive_fetch ex_env))) \<le> contentLength (progressive_fetch ex_env)"
proof -
  have b: "int (bytes_copied (steps (progressive_fetch ex_env))) \<le> contentLength (progressive_fetch ex_env)"
    by (simp add: ex_env_fields ex_fetch_ok_def)
  have pw: "progress ex_world = []" by (simp add: ex_world_def)
  show ?thesis
    using DownloadForPreview_progress_runs[of ex_lib ex_env "''https://youtu.be/dQw4w9WgXcQ''" "''/tmp''"
            "''/usr/bin/ffmpeg''" ex_world] b
    by (simp add: ex_run pw)
qed

section \<open>Temporary files after a failure\<close>

lemma downloadToFile_files:
  "files (snd (downloadToFile ft d cb w)) =
     (if stream_ok ft \<and> create_ok ft then insert d (files w) else files w)"
  by (simp add: downloadToFile_eq)



lemma downloadToFile_case:
  "(case fst (downloadToFile ft d c w) of None \<Rightarrow> b | Some err \<Rightarrow> a err) =
     (if fetch_succeeds ft then b else a (the (fst (downloadToFile ft d c w))))"
  using downloadToFile_fst[of ft d c w] by (cases "fst (downloadToFile ft d c w)") auto

lemma downloadAndMux_cases:
  "downloadAndMux L env video v a destDir ffmpegPath cb w =
     (let videoPath = muxVideoPath L video v destDir;
          audioPath = muxAudioPath L video a destDir;
          outPath = muxOutPath L video destDir;
          r1 = downloadToFile (video_fetch env) videoPath (weightedProgress cb 0.0 0.75) w;
          r2 = downloadToFile (audio_fetch env) audioPath (weightedProgress cb 0.75 0.20) (snd r1)
      in if \<not> fetch_succeeds (video_fetch env)
         then (Inl (ErrVideoStream (the (fst r1))), Remove videoPath (snd r1))
         else if \<not> fetch_succeeds (audio_fetch env)
         then (Inl (ErrAudioStream (the (fst r2))), Remove audioPath (Remove videoPath (snd r2)))
         else
           (let w = spawn (RunMux ffmpegPath (muxArgs v a videoPath audioPath outPath)) (snd r2);
                w = (if mux_exit_ok env \<or> mux_leaves_output env
                     then w\<lparr>files := insert outPath (files w)\<rparr> else w)
            in if \<not> mux_exit_ok env
               then (Inl ErrMux, Remove outPath (Remove audioPath (Remove videoPath w)))
               else (Inr outPath,
                     (case cb of
                        None \<Rightarrow> Remove audioPath (Remove videoPath w)
                      | Some k \<Rightarrow> deliver (k 1.0) (Remove audioPath (Remove videoPath w))))))"
  unfolding downloadAndMux_def Let_def split_beta
  by (simp add: downloadToFile_case)

text \<open>
  Claim C6.  \<open>downloadAndMux\<close> fails exactly when the video fetch, the audio fetch or
  the encoder fails.  When it fails it leaves no file behind that was not there
  before: the video file is gone, the audio file is gone once the video fetch had
  succeeded, and the output file is gone once both fetches had succeeded; and
  \<open>DownloadForPreview\<close> goes on with the progressive strategy in that state.
\<close>

theorem downloadAndMux_failure_cleanup:
  "(isl (fst (downloadAndMux L env video v a destDir ffmpegPath cb w)) \<longleftrightarrow>
      \<not> fetch_succeeds (video_fetch env) \<or> \<not> fetch_succeeds (audio_fetch env) \<or> \<not> mux_exit_ok env) \<and>
   (isl (fst (downloadAndMux L env video v a destDir ffmpegPath cb w)) \<longrightarrow>
      files (snd (downloadAndMux L env video v a destDir ffmpegPath cb w)) \<subseteq> files w \<and>
      muxVideoPath L video v destDir \<notin> files (snd (downloadAndMux L env video v a destDir ffmpegPath cb w)) \<and>
      (fetch_succeeds (video_fetch env) \<longrightarrow>
         muxAudioPath L video a destDir \<notin> files (snd (downloadAndMux L env video v a destDir ffmpegPath cb w))) \<and>
      (fetch_succeeds (video_fetch env) \<and> fetch_succeeds (audio_fetch env) \<longrightarrow>
         muxOutPath L video destDir \<notin> files (snd (downloadAndMux L env video v a destDir ffmpegPath cb w))) \<and>
      (ffmpegPath \<noteq> [] \<and> selectMuxFormats (Formats video) = (Some v, Some a) \<longrightarrow>
         muxOrProgressive L env video destDir ffmpegPath cb w =
         progressiveDownload L env video destDir ffmpegPath cb
           (snd (downloadAndMux L env video v a destDir ffmpegPath cb w))))"
proof -
  have a: "isl (fst (downloadAndMux L env video v a destDir ffmpegPath cb w)) \<longleftrightarrow>
      \<not> fetch_succeeds (video_fetch env) \<or> \<not> fetch_succeeds (audio_fetch env) \<or> \<not> mux_exit_ok env"
    by (simp add: downloadAndMux_cases Let_def)
  have b: "files (snd (downloadAndMux L env video v a destDir ffmpegPath cb w)) \<subseteq> files w"
    if "isl (fst (downloadAndMux L env video v a destDir ffmpegPath cb w))"
    using that by (auto simp: downloadAndMux_cases Let_def Remove_def spawn_def downloadToFile_files split: if_splits)
  have c: "muxVideoPath L video v destDir \<notin> files (snd (downloadAndMux L env video v a destDir ffmpegPath cb w))"
    if "isl (fst (downloadAndMux L env video v a destDir ffmpegPath cb w))"
    using that by (auto simp: downloadAndMux_cases Let_def Remove_def spawn_def split: if_splits)
  have d: "muxAudioPath L video a destDir \<notin> files (snd (downloadAndMux L env video v a destDir ffmpegPath cb w))"
    if "isl (fst (downloadAndMux L env video v a destDir ffmpegPath cb w))" "fetch_succeeds (video_fetch env)"
    using that by (auto simp: downloadAndMux_cases Let_def Remove_def spawn_def split: if_splits)
  have e: "muxOutPath L video destDir \<notin> files (snd (downloadAndMux L env video v a destDir ffmpegPath cb w))"
    if "isl (fst (downloadAndMux L env video v a destDir ffmpegPath cb w))"
       "fetch_succeeds (video_fetch env)" "fetch_succeeds (audio_fetch env)"
    using that by (auto simp: downloadAndMux_cases Let_def Remove_def spawn_def split: if_splits)
  have f: "muxOrProgressive L env video destDir ffmpegPath cb w =
         progressiveDownload L env video destDir ffmpegPath cb
           (snd (downloadAndMux L env video v a destDir ffmpegPath cb w))"
    if "isl (fst (downloadAndMux L env video v a destDir ffmpegPath cb w))"
       "ffmpegPath \<noteq> []" "selectMuxFormats (Formats video) = (Some v, Some a)"
  proof -
    obtain r w1 where m: "downloadAndMux L env video v a destDir ffmpegPath cb w = (r, w1)"
      by (cases "downloadAndMux L env video v a destDir ffmpegPath cb w")
    with that(1) obtain err where "r = Inl err" by (cases r) auto
    then show ?thesis using that(2,3) m by (simp add: muxOrProgressive_def)
  qed
  from a b c d e f show ?thesis by blast
qed



lemma ex_ok_succeeds: "fetch_succeeds ex_fetch_ok"
  by (simp add: fetch_succeeds_def ex_fetch_ok_def io_Copy.simps Read_src_def)



text \<open>Both fetches succeed, the encoder fails and leaves a partial output: no file remains.\<close>

theorem downloadAndMux_failure_cleanup_witness:
  "fetch_succeeds (video_fetch ex_env_muxfail) \<and> fetch_succeeds (audio_fetch ex_env_muxfail) \<and>
   \<not> mux_exit_ok ex_env_muxfail \<and> mux_leaves_output ex_env_muxfail \<and>
   isl (fst (downloadAndMux ex_lib ex_env_muxfail ex_video ex_v720 ex_a128 ''/tmp'' ''/usr/bin/ffmpeg'' sink ex_world)) \<and>
   files (snd (downloadAndMux ex_lib ex_env_muxfail ex_video ex_v720 ex_a128 ''/tmp'' ''/usr/bin/ffmpeg'' sink ex_world)) = {} \<and>
   muxOrProgressive ex_lib ex_env_muxfail ex_video ''/tmp'' ''/usr/bin/ffmpeg'' sink ex_world =
     progressiveDownload ex_lib ex_env_muxfail ex_video ''/tmp'' ''/usr/bin/ffmpeg'' sink
       (snd (downloadAndMux ex_lib ex_env_muxfail ex_video ex_v720 ex_a128 ''/tmp'' ''/usr/bin/ffmpeg'' sink ex_world))"
proof -
  have f: "video_fetch ex_env_muxfail = ex_fetch_ok" "audio_fetch ex_env_muxfail = ex_fetch_ok"
    "mux_exit_ok ex_env_muxfail = False" "mux_leaves_output ex_env_muxfail = True"
    by (simp_all add: ex_env_muxfail_def ex_env_def)
  have s: "selectMuxFormats (Formats ex_video) = (Some ex_v720, Some ex_a128)"
    by (simp add: ex_video_fields ex_mux)
  have w: "files ex_world = {}" by (simp add: ex_world_def)
  show ?thesis
    using downloadAndMux_failure_cleanup[of ex_lib ex_env_muxfail ex_video ex_v720 ex_a128 "''/tmp''"
            "''/usr/bin/ffmpeg''" sink ex_world] s
    by (simp add: f ex_ok_succeeds w)
qed

section \<open>Codec flags of the mux step\<close>

lemma flag_value_video:
  "flag_value ''-c:v'' (drop 12 (muxArgs v a vp ap op)) =
     Some (if needsVideoTranscode v then ''libx264'' else ''copy'')"
  by (simp add: muxArgs_def Let_def)

lemma flag_value_audio:
  "flag_value ''-c:a'' (drop 12 (muxArgs v a vp ap op)) =
     Some (if needsAudioTranscode a then ''aac'' else ''copy'')"
  by (simp add: muxArgs_def Let_def)

lemma downloadAndMux_spawned:
  "fetch_succeeds (video_fetch env) \<Longrightarrow> fetch_succeeds (audio_fetch env) \<Longrightarrow>
   spawned (snd (downloadAndMux L env video v a destDir ffmpegPath cb w)) =
     spawned w @ [RunMux ffmpegPath (muxArgs v a (muxVideoPath L video v destDir)
                    (muxAudioPath L video a destDir) (muxOutPath L video destDir))]"
  by (simp add: downloadAndMux_cases Let_def Remove_def spawn_def deliver_def downloadToFile_eq
           split: option.splits)

text \<open>
  Claim C4, as the code has it.  The encoder is launched with the arguments of
  \<open>muxArgs\<close>.  After the twelve leading arguments (options, inputs, stream maps) the
  video codec flag is \<open>copy\<close> or \<open>libx264\<close> and the audio codec flag is \<open>copy\<close> or \<open>aac\<close>.
  The video track is copied if and only if the MIME type of the video format contains
  none of \<open>vp9\<close>, \<open>vp09\<close>, \<open>av01\<close>, \<open>webm\<close>; the audio track is copied if and only if the
  MIME type of the audio format contains none of \<open>opus\<close>, \<open>webm\<close>.
\<close>

theorem muxArgs_codecs:
  "take 12 (muxArgs v a vp ap op) =
     [''-y'', ''-hide_banner'', ''-loglevel'', ''error'', ''-i'', vp, ''-i'', ap,
      ''-map'', ''0:v:0'', ''-map'', ''1:a:0''] \<and>
   flag_value ''-c:v'' (drop 12 (muxArgs v a vp ap op)) \<in> {Some ''copy'', Some ''libx264''} \<and>
   flag_value ''-c:a'' (drop 12 (muxArgs v a vp ap op)) \<in> {Some ''copy'', Some ''aac''} \<and>
   (flag_value ''-c:v'' (drop 12 (muxArgs v a vp ap op)) = Some ''copy'' \<longleftrightarrow>
      \<not> (Contains (MimeType v) ''vp9'' \<or> Contains (MimeType v) ''vp09'' \<or>
         Contains (MimeType v) ''av01'' \<or> Contains (MimeType v) ''webm'')) \<and>
   (flag_value ''-c:a'' (drop 12 (muxArgs v a vp ap op)) = Some ''copy'' \<longleftrightarrow>
      \<not> (Contains (MimeType a) ''opus'' \<or> Contains (MimeType a) ''webm'')) \<and>
   (fetch_succeeds (video_fetch env) \<and> fetch_succeeds (audio_fetch env) \<longrightarrow>
      spawned (snd (downloadAndMux L env video v a destDir ffmpegPath cb w)) =
        spawned w @ [RunMux ffmpegPath (muxArgs v a (muxVideoPath L video v destDir)
                       (muxAudioPath L video a destDir) (muxOutPath L video destDir))])"
proof -
  have 1: "take 12 (muxArgs v a vp ap op) =
     [''-y'', ''-hide_banner'', ''-loglevel'', ''error'', ''-i'', vp, ''-i'', ap,
      ''-map'', ''0:v:0'', ''-map'', ''1:a:0'']"
    by (simp add: muxArgs_def Let_def)
  have 2: "flag_value ''-c:v'' (drop 12 (muxArgs v a vp ap op)) = Some ''copy'' \<longleftrightarrow>
      \<not> (Contains (MimeType v) ''vp9'' \<or> Contains (MimeType v) ''vp09'' \<or>
         Contains (MimeType v) ''av01'' \<or> Contains (MimeType v) ''webm'')"
    unfolding flag_value_video needsVideoTranscode_def by simp
  have 3: "flag_value ''-c:a'' (drop 12 (muxArgs v a vp ap op)) = Some ''copy'' \<longleftrightarrow>
      \<not> (Contains (MimeType a) ''opus'' \<or> Contains (MimeType a) ''webm'')"
    unfolding flag_value_audio needsAudioTranscode_def by simp
  have 4: "flag_value ''-c:v'' (drop 12 (muxArgs v a vp ap op)) \<in> {Some ''copy'', Some ''libx264''}"
    unfolding flag_value_video by simp
  have 5: "flag_value ''-c:a'' (drop 12 (muxArgs v a vp ap op)) \<in> {Some ''copy'', Some ''aac''}"
    unfolding flag_value_audio by simp
  from 1 2 3 4 5 downloadAndMux_spawned[of env L video v a destDir ffmpegPath cb w]
  show ?thesis by blast
qed

lemma ex_markers:
  "needsVideoTranscode ex_v1080" "\<not> needsVideoTranscode ex_v720"
  "\<not> needsAudioTranscode ex_a128" "needsAudioTranscode ex_a160" "\<not> needsAudioTranscode ex_ec3"
  by code_simp+

text \<open>H.264 video in MP4 is copied, Opus audio in WebM is re-encoded to AAC.\<close>

theorem muxArgs_codecs_witness:
  "flag_value ''-c:v'' (drop 12 (muxArgs ex_v720 ex_a160 ''/tmp/clip-video.mp4'' ''/tmp/clip-audio.webm''
      ''/tmp/clip-preview.mp4'')) = Some ''copy'' \<and>
   flag_value ''-c:a'' (drop 12 (muxArgs ex_v720 ex_a160 ''/tmp/clip-video.mp4'' ''/tmp/clip-audio.webm''
      ''/tmp/clip-preview.mp4'')) = Some ''aac'' \<and>
   Contains (MimeType ex_a160) ''opus'' \<and> Contains (MimeType ex_v720) ''avc1'' \<and>
   fetch_succeeds (video_fetch ex_env_muxfail) \<and> fetch_succeeds (audio_fetch ex_env_muxfail) \<and>
   spawned (snd (downloadAndMux ex_lib ex_env_muxfail ex_video ex_v720 ex_a160 ''/tmp'' ''/usr/bin/ffmpeg'' sink ex_world)) =
     [RunMux ''/usr/bin/ffmpeg''
        [''-y'', ''-hide_banner'', ''-loglevel'', ''error'',
         ''-i'', ''/tmp/clip-video.mp4'', ''-i'', ''/tmp/clip-audio.webm'',
         ''-map'', ''0:v:0'', ''-map'', ''1:a:0'',
         ''-c:v'', ''copy'', ''-c:a'', ''aac'', ''-b:a'', ''192k'',
         ''-movflags'', ''+faststart'', ''-shortest'', ''/tmp/clip-preview.mp4'']]"
proof -
  have f: "video_fetch ex_env_muxfail = ex_fetch_ok" "audio_fetch ex_env_muxfail = ex_fetch_ok"
    by (simp_all add: ex_env_muxfail_def ex_env_def)
  have c: "Contains (MimeType ex_a160) ''opus''" "Contains (MimeType ex_v720) ''avc1''" by code_simp+
  have p: "muxAudioPath ex_lib ex_video ex_a160 ''/tmp'' = ''/tmp/clip-audio.webm''" by code_simp
  have w: "spawned ex_world = []" by (simp add: ex_world_def)
  have a: "muxArgs ex_v720 ex_a160 ''/tmp/clip-video.mp4'' ''/tmp/clip-audio.webm'' ''/tmp/clip-preview.mp4'' =
        [''-y'', ''-hide_banner'', ''-loglevel'', ''error'',
         ''-i'', ''/tmp/clip-video.mp4'', ''-i'', ''/tmp/clip-audio.webm'',
         ''-map'', ''0:v:0'', ''-map'', ''1:a:0'',
         ''-c:v'', ''copy'', ''-c:a'', ''aac'', ''-b:a'', ''192k'',
         ''-movflags'', ''+faststart'', ''-shortest'', ''/tmp/clip-preview.mp4'']"
    by (simp add: muxArgs_def ex_markers Let_def)
  show ?thesis
    using muxArgs_codecs[of ex_v720 ex_a160 "''/tmp/clip-video.mp4''" "''/tmp/clip-audio.webm''"
            "''/tmp/clip-preview.mp4''" ex_env_muxfail ex_lib ex_video "''/tmp''" "''/usr/bin/ffmpeg''" sink ex_world]
          c
    by (simp add: f ex_ok_succeeds ex_paths p w a)
qed

text \<open>
  The claim as stated fails: the source recognises AAC by the tag \<open>mp4a\<close> (as in
  \<open>selectFormat\<close> and \<open>needsSafariTranscode\<close>); an \<open>audio/mp4\<close> variant with the codec
  \<open>ec-3\<close> is not AAC, is chosen by split-pair selection for its bitrate, and is copied.
\<close>

theorem muxArgs_copies_non_aac_counterexample:
  "selectMuxFormats [ex_v720, ex_a128, ex_ec3] = (Some ex_v720, Some ex_ec3) \<and>
   \<not> Contains (MimeType ex_ec3) ''mp4a'' \<and>
   flag_value ''-c:a'' (drop 12 (muxArgs ex_v720 ex_ec3 ''/tmp/clip-video.mp4'' ''/tmp/clip-audio.m4a''
      ''/tmp/clip-preview.mp4'')) = Some ''copy''"
proof -
  have 1: "selectMuxFormats [ex_v720, ex_a128, ex_ec3] = (Some ex_v720, Some ex_ec3)" by code_simp
  have 2: "\<not> Contains (MimeType ex_ec3) ''mp4a''" by code_simp
  show ?thesis by (simp add: 1 2 flag_value_audio ex_markers)
qed

section \<open>Export: validation and progress\<close>

lemma TrimVideoWithProgress_rejects:
  "InputPath opts \<notin> files w \<or> EndTime opts \<le> StartTime opts \<Longrightarrow>
   fst (TrimVideoWithProgress ffmpegPath env opts cb w) \<noteq> None \<and>
   snd (TrimVideoWithProgress ffmpegPath env opts cb w) = w"
  by (auto simp: TrimVideoWithProgress_def)

text \<open>
  Claim C8.  A missing input file and an end time that is not greater than the start
  time make \<open>TrimVideoWithProgress\<close> return an error and leave the state as it was; the
  same two conditions and an output directory that is not absolute make \<open>ExportClip\<close>
  return an error and leave the state as it was.  In particular no process is launched.
\<close>

theorem export_validation:
  "(InputPath opts \<notin> files w \<or> EndTime opts \<le> StartTime opts \<longrightarrow>
      fst (TrimVideoWithProgress ffmpegPath env opts cb w) \<noteq> None \<and>
      snd (TrimVideoWithProgress ffmpegPath env opts cb w) = w) \<and>
   (currentVideoPath a \<notin> files w \<or> EndTime_opt eo \<le> StartTime_opt eo \<or>
    \<not> filepath_IsAbs L (OutputDir eo) \<longrightarrow>
      fst (ExportClip L a env eo w) \<noteq> None \<and>
      snd (ExportClip L a env eo w) = w \<and>
      spawned (snd (ExportClip L a env eo w)) = spawned w)"
proof -
  have 1: "fst (ExportClip L a env eo w) \<noteq> None \<and> snd (ExportClip L a env eo w) = w"
    if h: "currentVideoPath a \<notin> files w \<or> EndTime_opt eo \<le> StartTime_opt eo \<or>
           \<not> filepath_IsAbs L (OutputDir eo)"
  proof (cases "ffmpegInstaller a")
    case None
    then show ?thesis by (simp add: ExportClip_def)
  next
    case (Some installedPath)
    show ?thesis
    proof (cases "installedPath = [] \<or> currentVideoPath a = [] \<or> \<not> filepath_IsAbs L (OutputDir eo)")
      case True
      then show ?thesis using Some by (auto simp: ExportClip_def Let_def)
    next
      case False
      with h have bad: "currentVideoPath a \<notin> files w \<or> EndTime_opt eo \<le> StartTime_opt eo" by blast
      obtain topts where
        e: "ExportClip L a env eo w =
              (case TrimVideoWithProgress installedPath env topts sink w of
                 (Some err, w) \<Rightarrow> (Some (ErrExport err), w)
               | (None, w) \<Rightarrow> (None, w))"
        and i: "InputPath topts = currentVideoPath a"
        and s: "StartTime topts = StartTime_opt eo" and t: "EndTime topts = EndTime_opt eo"
        using Some False by (simp add: ExportClip_def Let_def)
      from bad have "InputPath topts \<notin> files w \<or> EndTime topts \<le> StartTime topts"
        by (simp add: i s t)
      from TrimVideoWithProgress_rejects[OF this, of installedPath env sink]
      show ?thesis unfolding e
        by (cases "TrimVideoWithProgress installedPath env topts sink w") (auto split: option.splits)
    qed
  qed
  from 1 TrimVideoWithProgress_rejects[of opts w ffmpegPath env cb] show ?thesis by auto
qed

lemma ex_main_name: "sanitizeFilename_main ex_lib ''cut'' = ''cut''" by code_simp

lemma ex_abs: "filepath_IsAbs ex_lib ''/home/me/clips''" "\<not> filepath_IsAbs ex_lib ''clips''"
  by code_simp+

lemma ex_ext: "strings_EqualFold ex_lib (filepath_Ext ex_lib ''cut'') ''.mp4'' = False"
  "filepath_Join ex_lib ''/home/me/clips'' ''cut.mp4'' = ''/home/me/clips/cut.mp4''"
  by code_simp+

lemma ex_export_relative:
  "ExportClip ex_lib ex_app ex_trim_env (ex_export\<lparr>OutputDir := ''clips''\<rparr>) ex_loaded =
     (Some ErrNotAbsolute, ex_loaded)"
  by (simp add: ExportClip_def ex_app_def ex_export_def ex_main_name ex_abs Let_def)

lemma ex_export_reversed:
  "ExportClip ex_lib ex_app ex_trim_env (ex_export\<lparr>EndTime_opt := 10\<rparr>) ex_loaded =
     (Some (ErrExport ErrTimes), ex_loaded)"
  by (simp add: ExportClip_def TrimVideoWithProgress_def ex_app_def ex_export_def ex_main_name ex_abs
        ex_ext ex_loaded_def Let_def)

lemma ex_export_missing:
  "ExportClip ex_lib ex_app ex_trim_env ex_export ex_world = (Some (ErrExport ErrInputMissing), ex_world)"
  by (simp add: ExportClip_def TrimVideoWithProgress_def ex_app_def ex_export_def ex_main_name ex_abs
        ex_ext ex_world_def Let_def)

text \<open>A relative output directory, an empty time range, and an input file that does not exist.\<close>

theorem export_validation_witness:
  "\<not> filepath_IsAbs ex_lib (OutputDir (ex_export\<lparr>OutputDir := ''clips''\<rparr>)) \<and>
   fst (ExportClip ex_lib ex_app ex_trim_env (ex_export\<lparr>OutputDir := ''clips''\<rparr>) ex_loaded) = Some ErrNotAbsolute \<and>
   spawned (snd (ExportClip ex_lib ex_app ex_trim_env (ex_export\<lparr>OutputDir := ''clips''\<rparr>) ex_loaded)) = [] \<and>
   EndTime_opt (ex_export\<lparr>EndTime_opt := 10\<rparr>) \<le> StartTime_opt (ex_export\<lparr>EndTime_opt := 10\<rparr>) \<and>
   fst (ExportClip ex_lib ex_app ex_trim_env (ex_export\<lparr>EndTime_opt := 10\<rparr>) ex_loaded) = Some (ErrExport ErrTimes) \<and>
   spawned (snd (ExportClip ex_lib ex_app ex_trim_env (ex_export\<lparr>EndTime_opt := 10\<rparr>) ex_loaded)) = [] \<and>
   currentVideoPath ex_app \<notin> files ex_world \<and>
   fst (ExportClip ex_lib ex_app ex_trim_env ex_export ex_world) = Some (ErrExport ErrInputMissing) \<and>
   spawned (snd (ExportClip ex_lib ex_app ex_trim_env ex_export ex_world)) = [] \<and>
   InputPath ex_trim_opts \<notin> files ex_world \<and>
   fst (TrimVideoWithProgress ''/usr/bin/ffmpeg'' ex_trim_env ex_trim_opts sink ex_world) = Some ErrInputMissing \<and>
   spawned (snd (TrimVideoWithProgress ''/usr/bin/ffmpeg'' ex_trim_env ex_trim_opts sink ex_world)) = [] \<and>
   spawned (snd (ExportClip ex_lib ex_app ex_trim_env ex_export ex_loaded)) = [RunTrim ''/usr/bin/ffmpeg'']"
proof -
  have t: "TrimVideoWithProgress ''/usr/bin/ffmpeg'' ex_trim_env ex_trim_opts sink ex_world =
             (Some ErrInputMissing, ex_world)"
    by (simp add: TrimVideoWithProgress_def ex_trim_opts_def ex_world_def)
  have v: "spawned (snd (ExportClip ex_lib ex_app ex_trim_env ex_export ex_loaded)) = [RunTrim ''/usr/bin/ffmpeg'']"
    by (simp add: ExportClip_def TrimVideoWithProgress_def ex_app_def ex_export_def ex_main_name ex_abs
          ex_ext ex_loaded_def Let_def deliver_def spawn_def sink_case
          ex_trim_env_def[THEN arg_cong, of mkdir_ok] ex_trim_env_def[THEN arg_cong, of pipe_ok]
          ex_trim_env_def[THEN arg_cong, of start_ok] ex_trim_env_def[THEN arg_cong, of wait_ok])
  have i: "InputPath ex_trim_opts \<notin> files ex_world" by (simp add: ex_trim_opts_def ex_world_def)
  have w: "spawned ex_loaded = []" "spawned ex_world = []" "files ex_world = {}"
    by (simp_all add: ex_loaded_def ex_world_def)
  have o: "EndTime_opt (ex_export\<lparr>EndTime_opt := 10\<rparr>) \<le> StartTime_opt (ex_export\<lparr>EndTime_opt := 10\<rparr>)"
    by (simp add: ex_export_def)
  show ?thesis
    using export_validation[of ex_trim_opts ex_world "''/usr/bin/ffmpeg''" ex_trim_env sink ex_app
            "ex_export\<lparr>OutputDir := ''clips''\<rparr>" ex_lib] o
    by (simp add: ex_export_relative ex_export_reversed ex_export_missing w ex_abs t v i)
qed

lemma progress_of_line_values:
  "progress_of_line d cb line =
     (if cb \<noteq> None \<and> d > 0 then map (export_fraction d)
        (if HasPrefix line ''out_time_ms=''
         then (case ParseInt (TrimPrefix line ''out_time_ms='') of None \<Rightarrow> [] | Some ms \<Rightarrow> [ms])
         else [])
      else [])"
  by (simp add: progress_of_line_def export_fraction_def Let_def min_def split: option.splits)

lemma progress_of_chunk_values:
  "progress_of_chunk d cb output =
     (if cb \<noteq> None \<and> d > 0 then map (export_fraction d) (parsed_times output) else [])"
proof -
  have "concat (map (progress_of_line d cb) ls) =
        (if cb \<noteq> None \<and> d > 0 then map (export_fraction d)
           (concat (map (\<lambda>line. if HasPrefix line ''out_time_ms=''
                          then (case ParseInt (TrimPrefix line ''out_time_ms='') of
                                  None \<Rightarrow> [] | Some ms \<Rightarrow> [ms])
                          else []) ls))
         else [])" for ls
    by (induction ls) (simp_all add: progress_of_line_values)
  then show ?thesis by (simp add: progress_of_chunk_def parsed_times_def)
qed

lemma progress_of_chunks_values:
  "concat (map (progress_of_chunk d cb) chunks) =
     (if cb \<noteq> None \<and> d > 0 then map (export_fraction d) (concat (map parsed_times chunks)) else [])"
  by (induction chunks) (simp_all add: progress_of_chunk_values)

lemma call_all_sink: "call_all sink vals = vals"
  by (induction vals) (simp_all add: call_all_def sink_def)

lemma export_fraction_bounds:
  "export_fraction d ms \<le> 1" "0 < d \<Longrightarrow> 0 \<le> ms \<Longrightarrow> 0 \<le> export_fraction d ms"
  by (simp_all add: export_fraction_def)

text \<open>
  What the export delivers when it succeeds: the fractions of the parsed times, each at
  most 1, with the final 1 of the calling goroutine after the first
  \<open>calls_before_wait\<close> of them.
\<close>

lemma TrimVideoWithProgress_success:
  assumes "fst (TrimVideoWithProgress ffmpegPath env opts sink w) = None"
  shows "progress (snd (TrimVideoWithProgress ffmpegPath env opts sink w)) =
           progress w @
           take (calls_before_wait env)
             (map (export_fraction (EndTime opts - StartTime opts))
                (concat (map parsed_times (stdout_chunks env)))) @
           [1] @
           drop (calls_before_wait env)
             (map (export_fraction (EndTime opts - StartTime opts))
                (concat (map parsed_times (stdout_chunks env))))"
proof -
  from assms have d: "0 < EndTime opts - StartTime opts"
    by (auto simp: TrimVideoWithProgress_def Let_def split: if_splits)
  have s: "sink \<noteq> None" by (simp add: sink_def)
  from assms show ?thesis
    by (simp add: TrimVideoWithProgress_def Let_def deliver_def spawn_def sink_case call_all_sink
          progress_of_chunks_values s d split: if_splits)
qed

lemma ex_times:
  "concat (map parsed_times (stdout_chunks ex_trim_env)) = [2500000, 6000000]"
  "concat (map parsed_times (stdout_chunks ex_trim_env_late)) = [-1000000, 2500000]"
  by code_simp+

lemma ex_trim_ok:
  "fst (TrimVideoWithProgress ''/usr/bin/ffmpeg'' ex_trim_env ex_trim_opts sink ex_loaded) = None"
  "fst (TrimVideoWithProgress ''/usr/bin/ffmpeg'' ex_trim_env_late ex_trim_opts sink ex_loaded) = None"
  by (simp_all add: TrimVideoWithProgress_def ex_trim_opts_def ex_loaded_def Let_def sink_case
        ex_trim_env_def[THEN arg_cong, of mkdir_ok] ex_trim_env_def[THEN arg_cong, of pipe_ok]
        ex_trim_env_def[THEN arg_cong, of start_ok] ex_trim_env_def[THEN arg_cong, of wait_ok]
        ex_trim_env_late_def[THEN arg_cong, of mkdir_ok] ex_trim_env_late_def[THEN arg_cong, of pipe_ok]
        ex_trim_env_late_def[THEN arg_cong, of start_ok] ex_trim_env_late_def[THEN arg_cong, of wait_ok])

lemma ex_trim_in_time:
  "progress (snd (TrimVideoWithProgress ''/usr/bin/ffmpeg'' ex_trim_env ex_trim_opts sink ex_loaded)) =
     [1/2, 1, 1]"
proof -
  have d: "EndTime ex_trim_opts - StartTime ex_trim_opts = 5" by (simp add: ex_trim_opts_def)
  have n: "calls_before_wait ex_trim_env = 2" by (simp add: ex_trim_env_def)
  have w: "progress ex_loaded = []" by (simp add: ex_loaded_def)
  show ?thesis
    by (simp add: TrimVideoWithProgress_success[OF ex_trim_ok(1)] ex_times d n w export_fraction_def)
qed

text \<open>
  Claim C9.  The claim: every value that the export forwards lies between 0 and 1, and
  on success a final 1 is delivered.  The code at an input where it does neither: the
  encoder prints the time \<open>-1000000\<close> and then \<open>2500000\<close> for a clip of five seconds
  and exits with success, and the reader makes its second call only after the encoder
  has exited.  The values delivered are \<open>-1/5\<close>, which is negative because only the
  upper bound is clamped, then the final 1, and then \<open>1/2\<close>, which the reader delivers
  after the final value because nothing waits for it.
\<close>

theorem TrimVideoWithProgress_at_failing_input:
  "fst (TrimVideoWithProgress ''/usr/bin/ffmpeg'' ex_trim_env_late ex_trim_opts sink ex_loaded) = None \<and>
   progress (snd (TrimVideoWithProgress ''/usr/bin/ffmpeg'' ex_trim_env_late ex_trim_opts sink ex_loaded)) =
     [- (1/5), 1, 1/2] \<and>
   hd (progress (snd (TrimVideoWithProgress ''/usr/bin/ffmpeg'' ex_trim_env_late ex_trim_opts sink ex_loaded))) < 0 \<and>
   last (progress (snd (TrimVideoWithProgress ''/usr/bin/ffmpeg'' ex_trim_env_late ex_trim_opts sink ex_loaded))) < 1"
proof -
  have d: "EndTime ex_trim_opts - StartTime ex_trim_opts = 5" by (simp add: ex_trim_opts_def)
  have n: "calls_before_wait ex_trim_env_late = 1" by (simp add: ex_trim_env_late_def)
  have w: "progress ex_loaded = []" by (simp add: ex_loaded_def)
  have "progress (snd (TrimVideoWithProgress ''/usr/bin/ffmpeg'' ex_trim_env_late ex_trim_opts sink ex_loaded)) =
     [- (1/5), 1, 1/2]"
    by (simp add: TrimVideoWithProgress_success[OF ex_trim_ok(2)] ex_times d n w export_fraction_def)
  then show ?thesis by (simp add: ex_trim_ok)
qed

end
